theory Spec2Isabelle
  imports Complex_Main
begin

section \<open>Data model\<close>

text \<open>
  JavaScript numbers are modelled as \<^typ>\<open>real\<close>: the geometric statements below are
  statements of real arithmetic about the formulas of the source. Identities (\<open>_key\<close>,
  \<open>system_id\<close>, \<open>typeID\<close>, array indices) are natural numbers.
\<close>

record dims =
  width :: real
  height :: real

record camera =
  cam_x :: real
  cam_y :: real
  zoom :: real

record solar_system =
  sys_key :: nat
  position2D :: "(real \<times> real) option"
  position :: "real \<times> real"
  regionID :: nat

record bounds =
  minX :: real
  minY :: real
  maxX :: real
  maxY :: real

record coordinate_data =
  cd_minX :: real
  cd_minY :: real
  cd_maxX :: real
  cd_maxY :: real
  scale :: real
  padding :: real

section \<open>Coordinate projector (StarMap.tsx, map view)\<close>

text \<open>\<open>a || b\<close> on numbers: \<open>b\<close> when \<open>a\<close> is \<open>0\<close>, else \<open>a\<close>.\<close>

definition js_or :: "real \<Rightarrow> real \<Rightarrow> real" where
  "js_or a b = (if a = 0 then b else a)"

text \<open>\<open>system.position2D?.x || system.position.x\<close> and the same for \<open>y\<close>.\<close>

definition sysX :: "solar_system \<Rightarrow> real" where
  "sysX s = (case position2D s of
               None \<Rightarrow> fst (position s)
             | Some p \<Rightarrow> js_or (fst p) (fst (position s)))"

definition sysY :: "solar_system \<Rightarrow> real" where
  "sysY s = (case position2D s of
               None \<Rightarrow> snd (position s)
             | Some p \<Rightarrow> js_or (snd p) (snd (position s)))"

text \<open>
  The running minimum and maximum of the \<open>bounds\<close> loop start at \<open>Infinity\<close> and
  \<open>-Infinity\<close>; \<open>None\<close> stands for that start value.
\<close>

fun acc_min :: "real option \<Rightarrow> real \<Rightarrow> real option" where
  "acc_min None x = Some x"
| "acc_min (Some m) x = Some (min m x)"

fun acc_max :: "real option \<Rightarrow> real \<Rightarrow> real option" where
  "acc_max None x = Some x"
| "acc_max (Some m) x = Some (max m x)"

definition map_bounds :: "solar_system list \<Rightarrow> bounds" where
  "map_bounds systems =
     (if systems = [] then \<lparr>minX = 0, minY = 0, maxX = 0, maxY = 0\<rparr>
      else \<lparr>minX = the (foldl acc_min None (map sysX systems)),
            minY = the (foldl acc_min None (map sysY systems)),
            maxX = the (foldl acc_max None (map sysX systems)),
            maxY = the (foldl acc_max None (map sysY systems))\<rparr>)"

definition coordinateData :: "dims \<Rightarrow> bounds \<Rightarrow> coordinate_data" where
  "coordinateData d b =
     (let padding = 50;
          scaleX = (width d - padding * 2) / js_or (maxX b - minX b) 1;
          scaleY = (height d - padding * 2) / js_or (maxY b - minY b) 1
      in \<lparr>cd_minX = minX b, cd_minY = minY b, cd_maxX = maxX b, cd_maxY = maxY b,
          scale = min scaleX scaleY, padding = padding\<rparr>)"

definition toCanvasX :: "coordinate_data \<Rightarrow> real \<Rightarrow> real" where
  "toCanvasX cd x = (x - cd_minX cd) * scale cd + padding cd"

definition toCanvasY :: "dims \<Rightarrow> coordinate_data \<Rightarrow> real \<Rightarrow> real" where
  "toCanvasY d cd y = height d - ((y - cd_minY cd) * scale cd + padding cd)"

text \<open>The initial camera of the map view (zoom 2, centred on the rendered bounding box).\<close>

definition initialCamera :: "dims \<Rightarrow> coordinate_data \<Rightarrow> camera" where
  "initialCamera d cd =
     (let renderedMinX = padding cd;
          renderedMaxX = (cd_maxX cd - cd_minX cd) * scale cd + padding cd;
          renderedMinY = height d - ((cd_maxY cd - cd_minY cd) * scale cd + padding cd);
          renderedMaxY = height d - padding cd;
          mapCenterX = (renderedMinX + renderedMaxX) / 2;
          mapCenterY = (renderedMinY + renderedMaxY) / 2;
          zoom = 2;
          screenCenterX = width d / 2;
          screenCenterY = height d / 2
      in \<lparr>cam_x = - (mapCenterX - screenCenterX) * zoom,
          cam_y = - (mapCenterY - screenCenterY) * zoom,
          zoom = zoom\<rparr>)"

section \<open>Coordinate projector (StarMap.tsx, system view)\<close>

definition sys_coordinateData :: "dims \<Rightarrow> bounds \<Rightarrow> coordinate_data" where
  "sys_coordinateData d b =
     (let padding = 100;
          scaleA = (width d - padding * 2) / js_or (maxX b - minX b) 1;
          scaleB = (height d - padding * 2) / js_or (maxY b - minY b) 1
      in \<lparr>cd_minX = minX b, cd_minY = minY b, cd_maxX = maxX b, cd_maxY = maxY b,
          scale = min scaleA scaleB, padding = padding\<rparr>)"

text \<open>The initial camera of the system view (zoom 1, centred on the star at the origin).\<close>

definition sys_initialCamera :: "dims \<Rightarrow> coordinate_data \<Rightarrow> camera" where
  "sys_initialCamera d cd =
     (let starCanvasX = (0 - cd_minX cd) * scale cd + padding cd;
          starCanvasY = height d - ((0 - cd_minY cd) * scale cd + padding cd);
          zoom = 1;
          screenCenterX = width d / 2;
          screenCenterY = height d / 2
      in \<lparr>cam_x = - (starCanvasX - screenCenterX) * zoom,
          cam_y = - (starCanvasY - screenCenterY) * zoom,
          zoom = zoom\<rparr>)"

section \<open>Camera transform\<close>

text \<open>
  The render effect draws a pre-camera point \<open>p\<close> after
  \<open>translate(w/2 + camera.x, h/2 + camera.y); scale(zoom); translate(-w/2, -h/2)\<close>.
\<close>

definition toScreenX :: "dims \<Rightarrow> camera \<Rightarrow> real \<Rightarrow> real" where
  "toScreenX d cam p = (p - width d / 2) * zoom cam + (width d / 2 + cam_x cam)"

definition toScreenY :: "dims \<Rightarrow> camera \<Rightarrow> real \<Rightarrow> real" where
  "toScreenY d cam p = (p - height d / 2) * zoom cam + (height d / 2 + cam_y cam)"

text \<open>The inverse used by the hover and click handlers (\<open>worldX\<close>, \<open>worldY\<close>).\<close>

definition toWorldX :: "dims \<Rightarrow> camera \<Rightarrow> real \<Rightarrow> real" where
  "toWorldX d cam mouseX = (mouseX - width d / 2 - cam_x cam) / zoom cam + width d / 2"

definition toWorldY :: "dims \<Rightarrow> camera \<Rightarrow> real \<Rightarrow> real" where
  "toWorldY d cam mouseY = (mouseY - height d / 2 - cam_y cam) / zoom cam + height d / 2"

text \<open>
  The animation-frame callback of \<open>handleWheelEvent\<close> (identical in both views):
  \<open>pendingZoomDelta\<close> is the delta accumulated since the last applied frame.
\<close>

definition handleWheelFrame :: "dims \<Rightarrow> camera \<Rightarrow> real \<Rightarrow> real \<Rightarrow> real \<Rightarrow> camera" where
  "handleWheelFrame d cam mouseX mouseY pendingZoomDelta =
     (let newZoom = max (1 / 10) (min 10 (zoom cam * (1 + pendingZoomDelta)));
          worldX = (mouseX - width d / 2 - cam_x cam) / zoom cam;
          worldY = (mouseY - height d / 2 - cam_y cam) / zoom cam;
          newX = mouseX - width d / 2 - worldX * newZoom;
          newY = mouseY - height d / 2 - worldY * newZoom
      in \<lparr>cam_x = newX, cam_y = newY, zoom = newZoom\<rparr>)"

section \<open>Camera state machine (both views)\<close>

text \<open>
  The component keeps the camera twice: the mutable \<open>cameraRef.current\<close> written by the
  input handlers, and the React state \<open>camera\<close> read by the render effect.
\<close>

record view_state =
  cameraRef :: camera
  camera_state :: camera
  isDragging :: bool
  dragStart :: "real \<times> real"
  mouseDownPos :: "real \<times> real"
  renderRequested :: bool
  cameraInitialized :: bool

datatype result_type = RSystem | RRegion

record search_result =
  res_type :: result_type
  res_id :: nat

datatype event =
    InitialPlacement
  | MouseDown real real
  | MouseMove real real
  | DragFrame
  | MouseUp real real
  | MouseLeave
  | WheelFrame real real real
  | SelectResult search_result

text \<open>\<open>new Map(systems.map(s => [s._key, s]))\<close>: a later entry replaces an earlier one.\<close>

definition systemMap :: "solar_system list \<Rightarrow> nat \<Rightarrow> solar_system option" where
  "systemMap systems = map_of (rev (map (\<lambda>s. (sys_key s, s)) systems))"

definition map_initial_state :: view_state where
  "map_initial_state =
     \<lparr>cameraRef = \<lparr>cam_x = 0, cam_y = 0, zoom = 2\<rparr>,
      camera_state = \<lparr>cam_x = 0, cam_y = 0, zoom = 2\<rparr>,
      isDragging = False, dragStart = (0, 0), mouseDownPos = (0, 0),
      renderRequested = False, cameraInitialized = False\<rparr>"

definition sys_initial_state :: view_state where
  "sys_initial_state =
     \<lparr>cameraRef = \<lparr>cam_x = 0, cam_y = 0, zoom = 1\<rparr>,
      camera_state = \<lparr>cam_x = 0, cam_y = 0, zoom = 1\<rparr>,
      isDragging = False, dragStart = (0, 0), mouseDownPos = (0, 0),
      renderRequested = False, cameraInitialized = False\<rparr>"

definition handleSelectResult ::
  "dims \<Rightarrow> solar_system list \<Rightarrow> search_result \<Rightarrow> view_state \<Rightarrow> view_state" where
  "handleSelectResult d systems result st =
     (let cd = coordinateData d (map_bounds systems) in
      case res_type result of
        RSystem \<Rightarrow>
          (case systemMap systems (res_id result) of
             None \<Rightarrow> st
           | Some system \<Rightarrow>
               (let canvasX = toCanvasX cd (sysX system);
                    canvasY = toCanvasY d cd (sysY system);
                    zoom = 8;
                    screenCenterX = width d / 2;
                    screenCenterY = height d / 2
                in st\<lparr>camera_state := \<lparr>cam_x = - (canvasX - screenCenterX) * zoom,
                                        cam_y = - (canvasY - screenCenterY) * zoom,
                                        zoom = zoom\<rparr>\<rparr>))
      | RRegion \<Rightarrow>
          (let regionSystems = filter (\<lambda>s. regionID s = res_id result) systems in
           if length regionSystems > 0 then
             (let sumX = foldl (\<lambda>acc s. acc + sysX s) 0 regionSystems;
                  sumY = foldl (\<lambda>acc s. acc + sysY s) 0 regionSystems;
                  centerX = sumX / real (length regionSystems);
                  centerY = sumY / real (length regionSystems);
                  canvasX = toCanvasX cd centerX;
                  canvasY = toCanvasY d cd centerY;
                  zoom = 4;
                  screenCenterX = width d / 2;
                  screenCenterY = height d / 2
              in st\<lparr>camera_state := \<lparr>cam_x = - (canvasX - screenCenterX) * zoom,
                                      cam_y = - (canvasY - screenCenterY) * zoom,
                                      zoom = zoom\<rparr>\<rparr>)
           else st))"

definition handleMouseDown :: "real \<Rightarrow> real \<Rightarrow> view_state \<Rightarrow> view_state" where
  "handleMouseDown clientX clientY st =
     st\<lparr>isDragging := True,
        dragStart := (clientX - cam_x (cameraRef st), clientY - cam_y (cameraRef st)),
        mouseDownPos := (clientX, clientY)\<rparr>"

text \<open>
  \<open>handleMouseMove\<close> while dragging; without a drag it only updates the hover indicator,
  which is no part of this state.
\<close>

definition handleMouseMove :: "real \<Rightarrow> real \<Rightarrow> view_state \<Rightarrow> view_state" where
  "handleMouseMove clientX clientY st =
     (if isDragging st then
        st\<lparr>cameraRef := (cameraRef st)\<lparr>cam_x := clientX - fst (dragStart st),
                                        cam_y := clientY - snd (dragStart st)\<rparr>,
           renderRequested := True\<rparr>
      else st)"

text \<open>The animation-frame callback requested by a drag move.\<close>

definition dragFrame :: "view_state \<Rightarrow> view_state" where
  "dragFrame st =
     (if renderRequested st
      then st\<lparr>renderRequested := False, camera_state := cameraRef st\<rparr>
      else st)"

text \<open>\<open>handleMouseUp\<close>, camera part (the click query is modelled separately).\<close>

definition handleMouseUp :: "view_state \<Rightarrow> view_state" where
  "handleMouseUp st =
     (if isDragging st then st\<lparr>camera_state := cameraRef st, isDragging := False\<rparr>
      else st\<lparr>isDragging := False\<rparr>)"

definition handleMouseLeave :: "view_state \<Rightarrow> view_state" where
  "handleMouseLeave st = st\<lparr>isDragging := False\<rparr>"

text \<open>The wheel listener is attached only once the camera is initialised.\<close>

definition wheelFrame :: "dims \<Rightarrow> real \<Rightarrow> real \<Rightarrow> real \<Rightarrow> view_state \<Rightarrow> view_state" where
  "wheelFrame d mouseX mouseY pendingZoomDelta st =
     (if cameraInitialized st then
        (let c = handleWheelFrame d (cameraRef st) mouseX mouseY pendingZoomDelta
         in st\<lparr>cameraRef := c, camera_state := c\<rparr>)
      else st)"

definition map_initialPlacement :: "dims \<Rightarrow> solar_system list \<Rightarrow> view_state \<Rightarrow> view_state" where
  "map_initialPlacement d systems st =
     (if length systems = 0 then st
      else (let c = initialCamera d (coordinateData d (map_bounds systems))
            in st\<lparr>camera_state := c, cameraRef := c, cameraInitialized := True\<rparr>))"

definition sys_initialPlacement :: "dims \<Rightarrow> bounds \<Rightarrow> view_state \<Rightarrow> view_state" where
  "sys_initialPlacement d objectBounds st =
     (let c = sys_initialCamera d (sys_coordinateData d objectBounds)
      in st\<lparr>camera_state := c, cameraRef := c, cameraInitialized := True\<rparr>)"

fun map_step :: "dims \<Rightarrow> solar_system list \<Rightarrow> view_state \<Rightarrow> event \<Rightarrow> view_state" where
  "map_step d systems st InitialPlacement = map_initialPlacement d systems st"
| "map_step d systems st (MouseDown cx cy) = handleMouseDown cx cy st"
| "map_step d systems st (MouseMove cx cy) = handleMouseMove cx cy st"
| "map_step d systems st DragFrame = dragFrame st"
| "map_step d systems st (MouseUp cx cy) = handleMouseUp st"
| "map_step d systems st MouseLeave = handleMouseLeave st"
| "map_step d systems st (WheelFrame mx my dl) = wheelFrame d mx my dl st"
| "map_step d systems st (SelectResult r) = handleSelectResult d systems r st"

text \<open>The system view has no search box: a \<open>SelectResult\<close> event changes nothing there.\<close>

fun sys_step :: "dims \<Rightarrow> bounds \<Rightarrow> view_state \<Rightarrow> event \<Rightarrow> view_state" where
  "sys_step d ob st InitialPlacement = sys_initialPlacement d ob st"
| "sys_step d ob st (MouseDown cx cy) = handleMouseDown cx cy st"
| "sys_step d ob st (MouseMove cx cy) = handleMouseMove cx cy st"
| "sys_step d ob st DragFrame = dragFrame st"
| "sys_step d ob st (MouseUp cx cy) = handleMouseUp st"
| "sys_step d ob st MouseLeave = handleMouseLeave st"
| "sys_step d ob st (WheelFrame mx my dl) = wheelFrame d mx my dl st"
| "sys_step d ob st (SelectResult r) = st"

definition zoom_ok :: "camera \<Rightarrow> bool" where
  "zoom_ok c = (1 / 10 \<le> zoom c \<and> zoom c \<le> 10)"

section \<open>Spatial query, system view (findObjectAtPosition)\<close>

record adjusted =
  adj_x :: real
  adj_y :: real
  adj_radius :: real

datatype obj_kind = Star | Planet | Stargate | Station

text \<open>
  Objects are identified by reference in the source (\<open>adjustedPositions\<close> is keyed by the
  data object); here every object carries a natural number as its identity.
\<close>

record system_data =
  sd_star :: "nat option"
  sd_planets :: "nat list"
  sd_stargates :: "nat list"
  sd_stations :: "nat list"

record found =
  f_kind :: obj_kind
  f_obj :: nat
  f_distance :: real

definition distance2 :: "real \<Rightarrow> real \<Rightarrow> real" where
  "distance2 dx dy = sqrt (dx * dx + dy * dy)"

definition detectionRadius :: "camera \<Rightarrow> real \<Rightarrow> adjusted \<Rightarrow> real" where
  "detectionRadius cam detectionBuffer a =
     (let actualSize = adj_radius a / zoom cam in actualSize + detectionBuffer)"

text \<open>\<open>nearestDistance\<close> starts at \<open>Infinity\<close>, here \<open>None\<close>.\<close>

fun below :: "real \<Rightarrow> real option \<Rightarrow> bool" where
  "below x None = True"
| "below x (Some m) = (x < m)"

definition checkObject ::
  "camera \<Rightarrow> real \<Rightarrow> real \<Rightarrow> real \<Rightarrow> (nat \<Rightarrow> adjusted option) \<Rightarrow> obj_kind
     \<Rightarrow> real option \<times> found option \<Rightarrow> nat \<Rightarrow> real option \<times> found option" where
  "checkObject cam worldX worldY detectionBuffer adjustedPositions kind acc obj =
     (case adjustedPositions obj of
        None \<Rightarrow> acc
      | Some a \<Rightarrow>
          (let dx = worldX - adj_x a;
               dy = worldY - adj_y a;
               distance = distance2 dx dy
           in if distance < detectionRadius cam detectionBuffer a \<and> below distance (fst acc)
              then (Some distance, Some \<lparr>f_kind = kind, f_obj = obj, f_distance = distance\<rparr>)
              else acc))"

definition findObjectAtPosition ::
  "dims \<Rightarrow> camera \<Rightarrow> system_data option \<Rightarrow> (nat \<Rightarrow> adjusted option)
     \<Rightarrow> real \<Rightarrow> real \<Rightarrow> real \<Rightarrow> found option" where
  "findObjectAtPosition d cam systemData adjustedPositions mouseX mouseY detectionBuffer =
     (case systemData of
        None \<Rightarrow> None
      | Some sd \<Rightarrow>
          (let worldX = toWorldX d cam mouseX;
               worldY = toWorldY d cam mouseY;
               chk = checkObject cam worldX worldY detectionBuffer adjustedPositions;
               a0 = (None, None);
               a1 = (case sd_star sd of None \<Rightarrow> a0 | Some star \<Rightarrow> chk Star a0 star);
               a2 = foldl (chk Planet) a1 (sd_planets sd);
               a3 = foldl (chk Stargate) a2 (sd_stargates sd);
               a4 = foldl (chk Station) a3 (sd_stations sd)
           in snd a4))"

text \<open>
  The two call sites: \<open>findObjectAtPosition(mouseX, mouseY, 3)\<close> in \<open>handleMouseMove\<close>
  ("3px buffer for hover") and \<open>findObjectAtPosition(mouseX, mouseY, 5)\<close> in
  \<open>handleMouseUp\<close> ("5px buffer for click").
\<close>

definition hoverFind ::
  "dims \<Rightarrow> camera \<Rightarrow> system_data option \<Rightarrow> (nat \<Rightarrow> adjusted option)
     \<Rightarrow> real \<Rightarrow> real \<Rightarrow> found option" where
  "hoverFind d cam systemData adjustedPositions mouseX mouseY =
     findObjectAtPosition d cam systemData adjustedPositions mouseX mouseY 3"

definition clickFind ::
  "dims \<Rightarrow> camera \<Rightarrow> system_data option \<Rightarrow> (nat \<Rightarrow> adjusted option)
     \<Rightarrow> real \<Rightarrow> real \<Rightarrow> found option" where
  "clickFind d cam systemData adjustedPositions mouseX mouseY =
     findObjectAtPosition d cam systemData adjustedPositions mouseX mouseY 5"

section \<open>Auxiliary notions used in the statements\<close>

text \<open>A sequence of applied wheel frames at one cursor position.\<close>

definition wheelSeq :: "dims \<Rightarrow> real \<Rightarrow> real \<Rightarrow> camera \<Rightarrow> real list \<Rightarrow> camera" where
  "wheelSeq d mouseX mouseY cam deltas =
     foldl (\<lambda>c dl. handleWheelFrame d c mouseX mouseY dl) cam deltas"

definition inv_zoom :: "view_state \<Rightarrow> bool" where
  "inv_zoom st = (zoom_ok (camera_state st) \<and> zoom_ok (cameraRef st))"

text \<open>All objects \<open>findObjectAtPosition\<close> scans.\<close>

definition listed :: "system_data \<Rightarrow> nat set" where
  "listed sd = set_option (sd_star sd) \<union> set (sd_planets sd)
                 \<union> set (sd_stargates sd) \<union> set (sd_stations sd)"

definition hit_ok ::
  "camera \<Rightarrow> real \<Rightarrow> real \<Rightarrow> real \<Rightarrow> (nat \<Rightarrow> adjusted option) \<Rightarrow> found \<Rightarrow> bool" where
  "hit_ok cam worldX worldY buffer adjustedPositions f =
     (case adjustedPositions (f_obj f) of
        None \<Rightarrow> False
      | Some a \<Rightarrow> f_distance f = distance2 (worldX - adj_x a) (worldY - adj_y a)
               \<and> f_distance f < adj_radius a / zoom cam + buffer)"

definition acc_inv ::
  "camera \<Rightarrow> real \<Rightarrow> real \<Rightarrow> real \<Rightarrow> (nat \<Rightarrow> adjusted option)
     \<Rightarrow> real option \<times> found option \<Rightarrow> bool" where
  "acc_inv cam wx wy buffer adj acc =
     (case snd acc of None \<Rightarrow> fst acc = None | Some f \<Rightarrow> hit_ok cam wx wy buffer adj f)"

subsection \<open>Concrete inputs\<close>

definition single_system :: solar_system where
  "single_system = \<lparr>sys_key = 1, position2D = None, position = (3, 4), regionID = 7\<rparr>"

definition surface :: dims where
  "surface = \<lparr>width = 800, height = 600\<rparr>"

definition one_planet :: system_data where
  "one_planet = \<lparr>sd_star = None, sd_planets = [1], sd_stargates = [], sd_stations = []\<rparr>"

definition planet_cache :: "nat \<Rightarrow> adjusted option" where
  "planet_cache = (\<lambda>k. if k = 1 then Some \<lparr>adj_x = 400, adj_y = 300, adj_radius = 6\<rparr> else None)"

definition cam2 :: camera where
  "cam2 = \<lparr>cam_x = 0, cam_y = 0, zoom = 2\<rparr>"

section \<open>Spatial query, map view (StarMap.tsx, handleMouseMove and handleMouseUp)\<close>

text \<open>
  The hover scan of \<open>handleMouseMove\<close>: \<open>nearestDistance\<close> starts at the hover radius and
  a system replaces the current best only when strictly nearer.
\<close>

definition hoverStep ::
  "dims \<Rightarrow> coordinate_data \<Rightarrow> real \<Rightarrow> real
     \<Rightarrow> real \<times> solar_system option \<Rightarrow> solar_system \<Rightarrow> real \<times> solar_system option" where
  "hoverStep d cd worldX worldY acc system =
     (let systemX = toCanvasX cd (sysX system);
          systemY = toCanvasY d cd (sysY system);
          dx = worldX - systemX;
          dy = worldY - systemY;
          distance = distance2 dx dy
      in if distance < fst acc then (distance, Some system) else acc)"

definition hoverQuery ::
  "dims \<Rightarrow> camera \<Rightarrow> solar_system list \<Rightarrow> real \<Rightarrow> real \<Rightarrow> solar_system option" where
  "hoverQuery d cam systems mouseX mouseY =
     (let cd = coordinateData d (map_bounds systems);
          worldX = toWorldX d cam mouseX;
          worldY = toWorldY d cam mouseY;
          hoverRadius = 10 / zoom cam
      in snd (foldl (hoverStep d cd worldX worldY) (hoverRadius, None) systems))"

text \<open>
  The click scan of \<open>handleMouseUp\<close>: the loop pushes the route of the first system within
  the click radius and breaks.
\<close>

fun clickScan ::
  "dims \<Rightarrow> coordinate_data \<Rightarrow> real \<Rightarrow> real \<Rightarrow> real \<Rightarrow> solar_system list \<Rightarrow> nat option" where
  "clickScan d cd worldX worldY clickRadius [] = None"
| "clickScan d cd worldX worldY clickRadius (system # rest) =
     (let systemX = toCanvasX cd (sysX system);
          systemY = toCanvasY d cd (sysY system);
          dx = worldX - systemX;
          dy = worldY - systemY;
          distance = distance2 dx dy
      in if distance < clickRadius then Some (sys_key system)
         else clickScan d cd worldX worldY clickRadius rest)"

definition clickQuery ::
  "dims \<Rightarrow> camera \<Rightarrow> solar_system list \<Rightarrow> real \<Rightarrow> real \<Rightarrow> nat option" where
  "clickQuery d cam systems mouseX mouseY =
     (let cd = coordinateData d (map_bounds systems);
          worldX = toWorldX d cam mouseX;
          worldY = toWorldY d cam mouseY;
          clickRadius = 10 / zoom cam
      in clickScan d cd worldX worldY clickRadius systems)"

text \<open>
  \<open>handleMouseUp\<close>, navigation part: the identity pushed to the router, if any.
  \<open>rect\<close> is the canvas origin in client coordinates.
\<close>

definition mouseUpNavigate ::
  "dims \<Rightarrow> view_state \<Rightarrow> solar_system list \<Rightarrow> real \<times> real \<Rightarrow> real \<Rightarrow> real \<Rightarrow> nat option" where
  "mouseUpNavigate d st systems rect clientX clientY =
     (let dx = clientX - fst (mouseDownPos st);
          dy = clientY - snd (mouseDownPos st);
          distance = distance2 dx dy
      in if distance < 5 then
           clickQuery d (cameraRef st) systems (clientX - fst rect) (clientY - snd rect)
         else None)"

section \<open>Map-data endpoint (app/api/map/data/route.ts)\<close>

record stargate =
  sg_key :: nat
  solarSystemID :: nat
  destination :: nat

text \<open>Decimal rendering of a non-negative integer in a template string.\<close>

definition digit_char :: "nat \<Rightarrow> char" where
  "digit_char n = char_of (48 + n)"

fun show_nat :: "nat \<Rightarrow> string" where
  "show_nat n = (if n < 10 then [digit_char n]
                 else show_nat (n div 10) @ [digit_char (n mod 10)])"

declare show_nat.simps [simp del]

definition hyphen :: char where
  "hyphen = CHR ''-''"

definition connKey :: "nat \<Rightarrow> nat \<Rightarrow> string" where
  "connKey from to = (if from < to then show_nat from @ hyphen # show_nat to
                      else show_nat to @ hyphen # show_nat from)"

definition connStep ::
  "nat set \<Rightarrow> string set \<times> (nat \<times> nat) list \<Rightarrow> stargate \<Rightarrow> string set \<times> (nat \<times> nat) list" where
  "connStep allowedSystemIds acc gate =
     (let from = solarSystemID gate;
          to = destination gate
      in if from \<notin> allowedSystemIds \<or> to \<notin> allowedSystemIds then acc
         else (let key = connKey from to
               in if key \<notin> fst acc then (insert key (fst acc), snd acc @ [(from, to)])
                  else acc))"

definition stargateConnections :: "nat set \<Rightarrow> stargate list \<Rightarrow> (nat \<times> nat) list" where
  "stargateConnections allowedSystemIds stargates =
     snd (foldl (connStep allowedSystemIds) ({}, []) stargates)"

section \<open>Alliance-sovereignty endpoint and alliance colouring\<close>

record sov_entry =
  alliance_id :: "nat option"
  corporation_id :: "nat option"
  faction_id :: "nat option"
  system_id :: nat

record name_entry =
  ne_category :: string
  ne_id :: nat
  ne_name :: string

record alliance_info =
  ai_alliance_id :: nat
  ai_alliance_name :: string

text \<open>Truthiness of an optional number: present and not \<open>0\<close>.\<close>

fun truthy :: "nat option \<Rightarrow> bool" where
  "truthy None = False"
| "truthy (Some n) = (n \<noteq> 0)"

definition allianceNameMap :: "name_entry list \<Rightarrow> nat \<Rightarrow> string option" where
  "allianceNameMap allianceNames =
     foldl (\<lambda>m alliance. if ne_category alliance = ''alliance''
                          then m(ne_id alliance \<mapsto> ne_name alliance) else m)
       Map.empty allianceNames"

definition allianceName :: "(nat \<Rightarrow> string option) \<Rightarrow> nat \<Rightarrow> string" where
  "allianceName nameMap aid =
     (case nameMap aid of
        None \<Rightarrow> ''Alliance '' @ show_nat aid
      | Some n \<Rightarrow> if n = [] then ''Alliance '' @ show_nat aid else n)"

text \<open>The three steps of the computation in \<open>GET\<close>.\<close>

definition sovAllianceSystems :: "sov_entry list \<Rightarrow> sov_entry list" where
  "sovAllianceSystems sovMap =
     filter (\<lambda>entry. truthy (alliance_id entry) \<and> \<not> truthy (faction_id entry)) sovMap"

text \<open>\<open>Array.from(new Set(...))\<close>: the distinct ids in the order of their first occurrence.\<close>

definition sovAllianceIds :: "sov_entry list \<Rightarrow> nat list" where
  "sovAllianceIds allianceSystems =
     rev (remdups (rev (map (\<lambda>entry. the (alliance_id entry)) allianceSystems)))"

definition overlayOf ::
  "(nat \<Rightarrow> string option) \<Rightarrow> sov_entry list \<Rightarrow> nat \<Rightarrow> alliance_info option" where
  "overlayOf nameMap allianceSystems =
     foldl (\<lambda>result entry.
              if truthy (alliance_id entry)
              then result(system_id entry \<mapsto>
                     \<lparr>ai_alliance_id = the (alliance_id entry),
                      ai_alliance_name = allianceName nameMap (the (alliance_id entry))\<rparr>)
              else result)
       Map.empty allianceSystems"

text \<open>
  The two remote lookups of \<open>ESIAgent\<close> throw when the reply is not OK; their outcomes
  are parameters of the endpoint: the reply of \<open>getSovereigntyMap\<close>, and the reply of
  \<open>getNames\<close> as a function of the ids it is called with.
\<close>

datatype fetch_error = RequestFailed

record cached_overlay =
  cache_data :: "nat \<Rightarrow> alliance_info option"
  cache_timestamp :: int

definition CACHE_DURATION :: int where
  "CACHE_DURATION = 60 * 60 * 1000"

text \<open>\<open>cachedData && Date.now() - cachedData.timestamp < CACHE_DURATION\<close>.\<close>

definition cacheFresh :: "cached_overlay option \<Rightarrow> int \<Rightarrow> bool" where
  "cacheFresh cachedData now =
     (case cachedData of
        None \<Rightarrow> False
      | Some c \<Rightarrow> now - cache_timestamp c < CACHE_DURATION)"

text \<open>
  \<open>GET\<close>: the new value of the module variable \<open>cachedData\<close> and the response, which is
  either the status 500 of the \<open>catch\<close> branch or the JSON body. \<open>now\<close> and \<open>later\<close> are
  the two readings of \<open>Date.now()\<close>.
\<close>

definition GET_allianceSovereignty ::
  "cached_overlay option \<Rightarrow> int \<Rightarrow> int \<Rightarrow> fetch_error + sov_entry list
     \<Rightarrow> (nat list \<Rightarrow> fetch_error + name_entry list)
     \<Rightarrow> cached_overlay option \<times> (nat + (nat \<Rightarrow> alliance_info option))" where
  "GET_allianceSovereignty cachedData now later getSovereigntyMap getNames =
     (if cacheFresh cachedData now then (cachedData, Inr (cache_data (the cachedData)))
      else
        (case getSovereigntyMap of
           Inl error \<Rightarrow> (cachedData, Inl 500)
         | Inr sovMap \<Rightarrow>
             (let allianceSystems = sovAllianceSystems sovMap;
                  allianceIds = sovAllianceIds allianceSystems
              in case getNames allianceIds of
                   Inl error \<Rightarrow> (cachedData, Inl 500)
                 | Inr allianceNames \<Rightarrow>
                     (let result = overlayOf (allianceNameMap allianceNames) allianceSystems
                      in (Some \<lparr>cache_data = result, cache_timestamp = later\<rparr>, Inr result)))))"

text \<open>
  The client (\<open>loadAllianceSovereignty\<close> in StarMap.tsx): a response that is not OK
  throws, and the \<open>catch\<close> branch sets the overlay to the empty object.
\<close>

definition loadAllianceSovereignty ::
  "nat + (nat \<Rightarrow> alliance_info option) \<Rightarrow> nat \<Rightarrow> alliance_info option" where
  "loadAllianceSovereignty response =
     (case response of Inl status \<Rightarrow> Map.empty | Inr data \<Rightarrow> data)"

text \<open>The overlay the map works with, for given outcomes of the remote lookups.\<close>

definition clientAllianceData ::
  "cached_overlay option \<Rightarrow> int \<Rightarrow> int \<Rightarrow> fetch_error + sov_entry list
     \<Rightarrow> (nat list \<Rightarrow> fetch_error + name_entry list) \<Rightarrow> nat \<Rightarrow> alliance_info option" where
  "clientAllianceData cachedData now later getSovereigntyMap getNames =
     loadAllianceSovereignty
       (snd (GET_allianceSovereignty cachedData now later getSovereigntyMap getNames))"

text \<open>Colours are kept as the three numbers of the \<open>hsl(h, s%, l%)\<close> string.\<close>

datatype color = HSL real real real

definition fmod :: "real \<Rightarrow> real \<Rightarrow> real" where
  "fmod a b = a - b * of_int \<lfloor>a / b\<rfloor>"

definition getAllianceColor :: "nat option \<Rightarrow> color" where
  "getAllianceColor allianceId =
     (if \<not> truthy allianceId then HSL 0 0 30
      else HSL (fmod (real (the allianceId) * 137.508) 360) 70 60)"

text \<open>The colour of a system marker in alliance mode.\<close>

definition allianceModeColor :: "(nat \<Rightarrow> alliance_info option) option \<Rightarrow> solar_system \<Rightarrow> color" where
  "allianceModeColor allianceData system =
     (case allianceData of
        None \<Rightarrow> HSL 0 0 30
      | Some ad \<Rightarrow>
          (case ad (sys_key system) of
             None \<Rightarrow> HSL 0 0 30
           | Some allianceInfo \<Rightarrow> getAllianceColor (Some (ai_alliance_id allianceInfo))))"

text \<open>
  The grouping of the render effect in alliance mode: an insertion-ordered map from
  alliance id to the projected positions of its systems.
\<close>

fun pushMember :: "nat \<Rightarrow> real \<times> real \<Rightarrow> (nat \<times> (real \<times> real) list) list
                     \<Rightarrow> (nat \<times> (real \<times> real) list) list" where
  "pushMember aid p [] = [(aid, [p])]"
| "pushMember aid p ((k, ms) # rest) =
     (if k = aid then (k, ms @ [p]) # rest else (k, ms) # pushMember aid p rest)"

definition allianceSystemsStep ::
  "dims \<Rightarrow> coordinate_data \<Rightarrow> (nat \<Rightarrow> alliance_info option)
     \<Rightarrow> (nat \<times> (real \<times> real) list) list \<Rightarrow> solar_system \<Rightarrow> (nat \<times> (real \<times> real) list) list" where
  "allianceSystemsStep d cd allianceData groups system =
     (case allianceData (sys_key system) of
        None \<Rightarrow> groups
      | Some allianceInfo \<Rightarrow>
          (let x = toCanvasX cd (sysX system);
               y = toCanvasY d cd (sysY system)
           in pushMember (ai_alliance_id allianceInfo) (x, y) groups))"

definition allianceSystemsOf ::
  "dims \<Rightarrow> coordinate_data \<Rightarrow> (nat \<Rightarrow> alliance_info option) \<Rightarrow> solar_system list
     \<Rightarrow> (nat \<times> (real \<times> real) list) list" where
  "allianceSystemsOf d cd allianceData systems =
     foldl (allianceSystemsStep d cd allianceData) [] systems"

subsection \<open>Concrete inputs and invariants of the endpoint proofs\<close>

definition sysA :: solar_system where
  "sysA = \<lparr>sys_key = 1, position2D = None, position = (0, 0), regionID = 7\<rparr>"

definition sysB :: solar_system where
  "sysB = \<lparr>sys_key = 2, position2D = None, position = (3, 0), regionID = 7\<rparr>"

definition sysC :: solar_system where
  "sysC = \<lparr>sys_key = 3, position2D = None, position = (700, 500), regionID = 8\<rparr>"

definition cam1 :: camera where
  "cam1 = \<lparr>cam_x = 0, cam_y = 0, zoom = 1\<rparr>"

text \<open>The map view at camera \<open>cam1\<close> right after a mouse-down at the given position.\<close>

definition clicked_state :: "real \<Rightarrow> real \<Rightarrow> view_state" where
  "clicked_state clientX clientY =
     handleMouseDown clientX clientY
       (map_initial_state\<lparr>cameraRef := cam1, camera_state := cam1, cameraInitialized := True\<rparr>)"

text \<open>
  A system with no star and one planet at \<open>(500, 250)\<close>: its bounding box has zero width
  and height and does not lie at the origin.
\<close>

definition planet_box :: bounds where
  "planet_box = \<lparr>minX = 500, minY = 250, maxX = 500, maxY = 250\<rparr>"

definition origin_box :: bounds where
  "origin_box = \<lparr>minX = 0, minY = 0, maxX = 0, maxY = 0\<rparr>"

text \<open>
  The map view after its initial placement and the selection of the search result for
  system \<open>sysC\<close>.
\<close>

definition selectC :: search_result where
  "selectC = \<lparr>res_type = RSystem, res_id = 3\<rparr>"

definition after_select :: view_state where
  "after_select =
     foldl (map_step surface [sysA, sysB, sysC]) map_initial_state
       [InitialPlacement, SelectResult selectC]"

definition pairKey :: "nat \<times> nat \<Rightarrow> string" where
  "pairKey c = connKey (fst c) (snd c)"

definition conn_inv :: "nat set \<Rightarrow> stargate list \<Rightarrow> string set \<times> (nat \<times> nat) list \<Rightarrow> bool" where
  "conn_inv allowed seen acc =
     (fst acc = pairKey ` set (snd acc)
    \<and> distinct (map pairKey (snd acc))
    \<and> (\<forall>c \<in> set (snd acc). fst c \<in> allowed \<and> snd c \<in> allowed
           \<and> (\<exists>g \<in> set seen. c = (solarSystemID g, destination g)))
    \<and> (\<forall>g \<in> set seen. solarSystemID g \<in> allowed \<and> destination g \<in> allowed
           \<longrightarrow> connKey (solarSystemID g) (destination g) \<in> fst acc))"

definition gate12 :: stargate where "gate12 = \<lparr>sg_key = 50000001, solarSystemID = 1, destination = 2\<rparr>"

definition gate21 :: stargate where "gate21 = \<lparr>sg_key = 50000002, solarSystemID = 2, destination = 1\<rparr>"

definition sov1 :: "sov_entry list" where
  "sov1 = [\<lparr>alliance_id = Some 99, corporation_id = Some 5, faction_id = None, system_id = 1\<rparr>,
           \<lparr>alliance_id = Some 99, corporation_id = None, faction_id = Some 500001, system_id = 2\<rparr>,
           \<lparr>alliance_id = None, corporation_id = None, faction_id = Some 500002, system_id = 3\<rparr>]"

definition names1 :: "nat list \<Rightarrow> fetch_error + name_entry list" where
  "names1 ids = Inr (map (\<lambda>i. \<lparr>ne_category = ''alliance'', ne_id = i, ne_name = ''Test''\<rparr>) ids)"

definition noNames :: "nat list \<Rightarrow> fetch_error + name_entry list" where
  "noNames ids = Inl RequestFailed"

section \<open>Marker-icon image cache (StarMap.tsx, loadImage)\<close>














subsection \<open>Invariant and input of the image-cache proofs\<close>



section \<open>Alliance proximity clustering (StarMap.tsx, render effect)\<close>

definition proximityThreshold :: real where
  "proximityThreshold = 150"

text \<open>The test inside \<open>cluster.some\<close>.\<close>

definition nearby :: "real \<times> real \<Rightarrow> real \<times> real \<Rightarrow> bool" where
  "nearby clusterSystem system =
     (let dx = fst clusterSystem - fst system;
          dy = snd clusterSystem - snd system;
          distance = distance2 dx dy
      in distance < proximityThreshold)"

text \<open>
  The inner loop over \<open>j\<close>. The source keeps the member objects in \<open>cluster\<close> and their
  indices in \<open>visited\<close>; here \<open>cluster\<close> is the list of the indices of its members, in
  the order they were pushed, so that the source's array is \<open>map (nth systems) cluster\<close>.
  After an absorption the source sets \<open>j = i\<close> and the loop increment makes it \<open>i + 1\<close>.
\<close>

function absorb ::
  "(real \<times> real) list \<Rightarrow> nat \<Rightarrow> nat list \<Rightarrow> nat set \<Rightarrow> nat \<Rightarrow> nat list \<times> nat set" where
  "absorb systems i cluster visited j =
     (if j < length systems then
        (if j \<in> visited then absorb systems i cluster visited (j + 1)
         else if list_ex (\<lambda>k. nearby (systems ! k) (systems ! j)) cluster
              then absorb systems i (cluster @ [j]) (insert j visited) (i + 1)
              else absorb systems i cluster visited (j + 1))
      else (cluster, visited))"
  by pat_completeness auto
termination
proof (relation "(\<lambda>(systems, i, cluster, visited, j). card ({..<length systems} - visited))
           <*mlex*> measure (\<lambda>(systems, i, cluster, visited, j). length systems - j)")
  show "wf ((\<lambda>(systems, i, cluster, visited, j). card ({..<length systems} - visited))
           <*mlex*> measure (\<lambda>(systems, i, cluster, visited, j). length systems - j))"
    by (simp add: wf_mlex)
next
  fix systems :: "(real \<times> real) list" and i :: nat and cluster :: "nat list"
    and visited :: "nat set" and j :: nat
  assume "j < length systems" "j \<in> visited"
  then show "((systems, i, cluster, visited, j + 1), (systems, i, cluster, visited, j))
        \<in> (\<lambda>(systems, i, cluster, visited, j). card ({..<length systems} - visited))
           <*mlex*> measure (\<lambda>(systems, i, cluster, visited, j). length systems - j)"
    by (auto simp: mlex_iff)
next
  fix systems :: "(real \<times> real) list" and i :: nat and cluster :: "nat list"
    and visited :: "nat set" and j :: nat
  assume a: "j < length systems" "j \<notin> visited"
  have "{..<length systems} - insert j visited \<subset> {..<length systems} - visited"
    using a by auto
  then have "card ({..<length systems} - insert j visited) < card ({..<length systems} - visited)"
    by (intro psubset_card_mono) auto
  then show "((systems, i, cluster @ [j], insert j visited, i + 1), (systems, i, cluster, visited, j))
        \<in> (\<lambda>(systems, i, cluster, visited, j). card ({..<length systems} - visited))
           <*mlex*> measure (\<lambda>(systems, i, cluster, visited, j). length systems - j)"
    by (auto simp: mlex_iff)
next
  fix systems :: "(real \<times> real) list" and i :: nat and cluster :: "nat list"
    and visited :: "nat set" and j :: nat
  assume "j < length systems" "j \<notin> visited"
  then show "((systems, i, cluster, visited, j + 1), (systems, i, cluster, visited, j))
        \<in> (\<lambda>(systems, i, cluster, visited, j). card ({..<length systems} - visited))
           <*mlex*> measure (\<lambda>(systems, i, cluster, visited, j). length systems - j)"
    by (auto simp: mlex_iff)
qed

declare absorb.simps [simp del]

text \<open>The outer loop over \<open>i\<close>, collecting \<open>clusters\<close>.\<close>

function clusterLoop ::
  "(real \<times> real) list \<Rightarrow> nat \<Rightarrow> nat set \<Rightarrow> nat list list \<Rightarrow> nat list list" where
  "clusterLoop systems i visited clusters =
     (if i < length systems then
        (if i \<in> visited then clusterLoop systems (i + 1) visited clusters
         else (let (cluster, visited') = absorb systems i [i] (insert i visited) (i + 1)
               in clusterLoop systems (i + 1) visited' (clusters @ [cluster])))
      else clusters)"
  by pat_completeness auto
termination
  by (relation "measure (\<lambda>(systems, i, visited, clusters). length systems - i)") auto

declare clusterLoop.simps [simp del]

definition proximityClusters :: "(real \<times> real) list \<Rightarrow> nat list list" where
  "proximityClusters systems = clusterLoop systems 0 {} []"

text \<open>The threshold graph on the member indices, and the component of a member.\<close>

definition edges :: "(real \<times> real) list \<Rightarrow> (nat \<times> nat) set" where
  "edges systems = {(a, b). a < length systems \<and> b < length systems
                             \<and> nearby (systems ! a) (systems ! b)}"

definition component :: "(real \<times> real) list \<Rightarrow> nat \<Rightarrow> nat set" where
  "component systems a = {b. (a, b) \<in> (edges systems)\<^sup>*}"

subsection \<open>Loop invariants of the clustering proof\<close>

definition absorb_pre ::
  "(real \<times> real) list \<Rightarrow> nat \<Rightarrow> nat set \<Rightarrow> nat list \<Rightarrow> nat set \<Rightarrow> nat \<Rightarrow> bool" where
  "absorb_pre systems i V0 cluster visited j =
     (i < length systems \<and> i < j
    \<and> set cluster \<subseteq> {..<length systems} \<and> i \<in> set cluster \<and> distinct cluster
    \<and> visited = V0 \<union> set cluster \<and> V0 \<inter> set cluster = {}
    \<and> {..<i} \<subseteq> V0
    \<and> (\<forall>k \<in> set cluster. (i, k) \<in> (edges systems)\<^sup>*)
    \<and> (\<forall>k. i < k \<and> k < j \<and> k \<notin> visited
           \<longrightarrow> \<not> list_ex (\<lambda>c. nearby (systems ! c) (systems ! k)) cluster))"

definition absorb_post ::
  "(real \<times> real) list \<Rightarrow> nat \<Rightarrow> nat set \<Rightarrow> nat list \<times> nat set \<Rightarrow> bool" where
  "absorb_post systems i V0 r =
     (set (fst r) \<subseteq> {..<length systems} \<and> i \<in> set (fst r) \<and> distinct (fst r)
    \<and> snd r = V0 \<union> set (fst r) \<and> V0 \<inter> set (fst r) = {}
    \<and> (\<forall>k \<in> set (fst r). (i, k) \<in> (edges systems)\<^sup>*)
    \<and> (\<forall>k < length systems. k \<notin> snd r
           \<longrightarrow> (\<forall>c \<in> set (fst r). \<not> nearby (systems ! c) (systems ! k))))"

definition clusters_ok :: "(real \<times> real) list \<Rightarrow> nat list list \<Rightarrow> bool" where
  "clusters_ok systems clusters =
     (\<forall>c \<in> set clusters. c \<noteq> [] \<and> (\<forall>a \<in> set c. set c = component systems a))"

definition outer_inv ::
  "(real \<times> real) list \<Rightarrow> nat \<Rightarrow> nat set \<Rightarrow> nat list list \<Rightarrow> bool" where
  "outer_inv systems i visited clusters =
     (visited = set (concat clusters) \<and> distinct (concat clusters)
    \<and> visited \<subseteq> {..<length systems} \<and> {..<i} \<subseteq> visited
    \<and> clusters_ok systems clusters)"

definition members4 :: "(real \<times> real) list" where
  "members4 = [(0, 0), (100, 0), (1000, 0), (200, 0)]"

section \<open>Collision-avoidance relaxation (StarMap.tsx, system view render effect)\<close>

definition minSeparation :: real where
  "minSeparation = 15"

definition maxIterations :: nat where
  "maxIterations = 5"

definition cellSize :: real where
  "cellSize = minSeparation * 2"

text \<open>
  \<open>Math.floor(v / cellSize)\<close>; the string \<open>`${cellX},${cellY}`\<close> that keys the grid is
  modelled by the pair of the two integers.
\<close>

definition cellCoord :: "real \<Rightarrow> int" where
  "cellCoord v = \<lfloor>v / cellSize\<rfloor>"

definition getCellKey :: "real \<Rightarrow> real \<Rightarrow> int \<times> int" where
  "getCellKey x y = (cellCoord x, cellCoord y)"

text \<open>
  The grid of one iteration: every marker index is pushed to the list of the cell of its
  position at the start of the iteration. The entries refer to the marker objects, so
  positions read through the grid later are the current ones.
\<close>

definition buildGrid :: "(real \<times> real) list \<Rightarrow> int \<times> int \<Rightarrow> nat list option" where
  "buildGrid objectsToRender =
     foldl (\<lambda>grid index.
              (let obj = objectsToRender ! index;
                   key = getCellKey (fst obj) (snd obj)
               in grid(key \<mapsto> (case grid key of None \<Rightarrow> [] | Some l \<Rightarrow> l) @ [index])))
       Map.empty [0..<length objectsToRender]"

record relax_state =
  rs_objects :: "(real \<times> real) list"
  rs_checkedPairs :: "(nat \<times> nat) set"
  rs_hadCollision :: bool

text \<open>\<open>i < j ? `${i},${j}` : `${j},${i}`\<close>, again as the pair of the two numbers.\<close>

definition checkKey :: "nat \<Rightarrow> nat \<Rightarrow> nat \<times> nat" where
  "checkKey i j = (if i < j then (i, j) else (j, i))"

text \<open>
  \<open>Math.cos(Math.atan2(dy, dx))\<close> and \<open>Math.sin(Math.atan2(dy, dx))\<close>: for a vector that
  is not zero these are \<open>dx\<close> and \<open>dy\<close> divided by its length, and the code evaluates them
  only under \<open>distance > 0\<close>.
\<close>

definition cosAtan2 :: "real \<Rightarrow> real \<Rightarrow> real" where
  "cosAtan2 dy dx = dx / distance2 dx dy"

definition sinAtan2 :: "real \<Rightarrow> real \<Rightarrow> real" where
  "sinAtan2 dy dx = dy / distance2 dx dy"

text \<open>The body of the loop over the neighbours of marker \<open>i\<close>, for the neighbour \<open>j\<close>.\<close>

definition processPair :: "nat \<Rightarrow> relax_state \<Rightarrow> nat \<Rightarrow> relax_state" where
  "processPair i st j =
     (if i = j then st
      else (let pairKey = checkKey i j in
            if pairKey \<in> rs_checkedPairs st then st
            else (let st1 = st\<lparr>rs_checkedPairs := insert pairKey (rs_checkedPairs st)\<rparr>;
                      obj1 = rs_objects st ! i;
                      obj2 = rs_objects st ! j;
                      dx = fst obj2 - fst obj1;
                      dy = snd obj2 - snd obj1;
                      distance = distance2 dx dy
                  in if distance < minSeparation \<and> distance > 0 then
                       (let pushStrength = (minSeparation - distance) / 2;
                            obj1' = (fst obj1 - cosAtan2 dy dx * pushStrength,
                                     snd obj1 - sinAtan2 dy dx * pushStrength);
                            obj2' = (fst obj2 + cosAtan2 dy dx * pushStrength,
                                     snd obj2 + sinAtan2 dy dx * pushStrength)
                        in st1\<lparr>rs_objects := (rs_objects st)[i := obj1', j := obj2'],
                               rs_hadCollision := True\<rparr>)
                     else st1)))"

text \<open>The nine cell offsets, \<open>dx = -1..1\<close> outside and \<open>dy = -1..1\<close> inside, in their order.\<close>

definition neighbourOffsets :: "(int \<times> int) list" where
  "neighbourOffsets = [(-1, -1), (-1, 0), (-1, 1), (0, -1), (0, 0), (0, 1), (1, -1), (1, 0), (1, 1)]"

definition processCell ::
  "(int \<times> int \<Rightarrow> nat list option) \<Rightarrow> nat \<Rightarrow> int \<Rightarrow> int \<Rightarrow> relax_state \<Rightarrow> int \<times> int \<Rightarrow> relax_state" where
  "processCell grid i cellX cellY st off =
     (case grid (cellX + fst off, cellY + snd off) of
        None \<Rightarrow> st
      | Some neighbors \<Rightarrow> foldl (processPair i) st neighbors)"

text \<open>The callback of the second \<open>forEach\<close>: the cell of marker \<open>i\<close> is computed once.\<close>

definition processObject :: "(int \<times> int \<Rightarrow> nat list option) \<Rightarrow> relax_state \<Rightarrow> nat \<Rightarrow> relax_state" where
  "processObject grid st i =
     (let obj1 = rs_objects st ! i;
          cellX = cellCoord (fst obj1);
          cellY = cellCoord (snd obj1)
      in foldl (processCell grid i cellX cellY) st neighbourOffsets)"

text \<open>One iteration: the new positions and \<open>hadCollision\<close>.\<close>

definition relaxIteration :: "(real \<times> real) list \<Rightarrow> (real \<times> real) list \<times> bool" where
  "relaxIteration objectsToRender =
     (let grid = buildGrid objectsToRender;
          st = foldl (processObject grid)
                 \<lparr>rs_objects = objectsToRender, rs_checkedPairs = {}, rs_hadCollision = False\<rparr>
                 [0..<length objectsToRender]
      in (rs_objects st, rs_hadCollision st))"

text \<open>
  The loop over \<open>iteration\<close>. The second component of the result counts the iterations
  that were executed (the source does not keep this number; the claim speaks of it).
\<close>

function relaxLoop :: "nat \<Rightarrow> (real \<times> real) list \<Rightarrow> (real \<times> real) list \<times> nat" where
  "relaxLoop iteration objectsToRender =
     (if iteration < maxIterations then
        (let (objs', hadCollision) = relaxIteration objectsToRender
         in if \<not> hadCollision then (objs', iteration + 1)
            else relaxLoop (iteration + 1) objs')
      else (objectsToRender, iteration))"
  by pat_completeness auto
termination
  by (relation "measure (\<lambda>(iteration, objectsToRender). maxIterations - iteration)") auto

declare relaxLoop.simps [simp del]

definition relax :: "(real \<times> real) list \<Rightarrow> (real \<times> real) list \<times> nat" where
  "relax objectsToRender = relaxLoop 0 objectsToRender"

text \<open>Distance of two markers of a position list.\<close>

definition markerDistance :: "(real \<times> real) list \<Rightarrow> nat \<Rightarrow> nat \<Rightarrow> real" where
  "markerDistance objs i j =
     distance2 (fst (objs ! j) - fst (objs ! i)) (snd (objs ! j) - snd (objs ! i))"

subsection \<open>Notions of the relaxation proof\<close>

text \<open>The test that makes a checked pair a collision.\<close>

definition collides :: "(real \<times> real) list \<Rightarrow> nat \<Rightarrow> nat \<Rightarrow> bool" where
  "collides objs i j =
     (markerDistance objs i j < minSeparation \<and> markerDistance objs i j > 0)"

definition pair_inv :: "(real \<times> real) list \<Rightarrow> relax_state \<Rightarrow> bool" where
  "pair_inv objs0 st =
     (\<not> rs_hadCollision st \<longrightarrow>
        rs_objects st = objs0
      \<and> (\<forall>p \<in> rs_checkedPairs st. \<not> collides objs0 (fst p) (snd p)))"

text \<open>The pairs that the scan of marker \<open>i\<close> meets in one cell, and in its nine cells.\<close>

definition cellPairs ::
  "(int \<times> int \<Rightarrow> nat list option) \<Rightarrow> nat \<Rightarrow> int \<Rightarrow> int \<Rightarrow> int \<times> int \<Rightarrow> (nat \<times> nat) set" where
  "cellPairs grid i cellX cellY off =
     {checkKey i j | j. j \<noteq> i
        \<and> (\<exists>l. grid (cellX + fst off, cellY + snd off) = Some l \<and> j \<in> set l)}"

definition objectPairs ::
  "(int \<times> int \<Rightarrow> nat list option) \<Rightarrow> (real \<times> real) list \<Rightarrow> nat \<Rightarrow> (nat \<times> nat) set" where
  "objectPairs grid objs0 i =
     (\<Union>off \<in> set neighbourOffsets.
        cellPairs grid i (cellCoord (fst (objs0 ! i))) (cellCoord (snd (objs0 ! i))) off)"

text \<open>A state of an iteration in which nothing has moved yet.\<close>

definition still :: "(real \<times> real) list \<Rightarrow> relax_state \<Rightarrow> bool" where
  "still objs st = (rs_objects st = objs \<and> \<not> rs_hadCollision st)"

definition coincident2 :: "(real \<times> real) list" where
  "coincident2 = [(100, 100), (100, 100)]"

definition close2 :: "(real \<times> real) list" where
  "close2 = [(0, 0), (9, 0)]"

definition pushed2 :: "(real \<times> real) list" where
  "pushed2 = [(-3, 0), (12, 0)]"

section \<open>Theorems\<close>

lemma js_or_one_nonzero: "js_or a 1 \<noteq> 0"
  by (simp add: js_or_def)

subsection \<open>Coordinate projector\<close>

lemma distance2_axis: "distance2 dx 0 = \<bar>dx\<bar>"
  by (simp add: distance2_def)

lemma bounds_ABC:
  "map_bounds [sysA, sysB, sysC] = \<lparr>minX = 0, minY = 0, maxX = 700, maxY = 500\<rparr>"
  by (simp add: map_bounds_def sysA_def sysB_def sysC_def sysX_def sysY_def)

lemma coordinateData_ABC:
  "coordinateData surface (map_bounds [sysA, sysB, sysC])
     = \<lparr>cd_minX = 0, cd_minY = 0, cd_maxX = 700, cd_maxY = 500, scale = 1, padding = 50\<rparr>"
  by (simp add: bounds_ABC coordinateData_def surface_def js_or_def)

text \<open>
  C1 (as stated in the specification): for every entity set whose bounding box has zero
  width and height the uniform fit-scale equals 1 and the camera still initialises
  centred. This fails in three ways. The guard \<open>|| 1\<close> replaces the divisor, not the
  scale: a single entity on an 800 x 600 surface gets scale 500. The system view centres
  its camera on the origin, not on the bounding box: a system with one planet at
  \<open>(500, 250)\<close> and no star has its only marker at screen position \<open>(200400, -99700)\<close>.
  And the map view does not initialise its camera at all for the empty entity set.
\<close>

theorem C1_scale_counterexample:
  "maxX (map_bounds [single_system]) - minX (map_bounds [single_system]) = 0
 \<and> maxY (map_bounds [single_system]) - minY (map_bounds [single_system]) = 0
 \<and> scale (coordinateData surface (map_bounds [single_system])) = 500
 \<and> scale (coordinateData surface (map_bounds [single_system])) \<noteq> 1
 \<and> maxX planet_box - minX planet_box = 0
 \<and> maxY planet_box - minY planet_box = 0
 \<and> toScreenX surface (camera_state (sys_initialPlacement surface planet_box sys_initial_state))
      (toCanvasX (sys_coordinateData surface planet_box) 500) = 200400
 \<and> toScreenY surface (camera_state (sys_initialPlacement surface planet_box sys_initial_state))
      (toCanvasY surface (sys_coordinateData surface planet_box) 250) = - 99700
 \<and> maxX (map_bounds []) - minX (map_bounds []) = 0
 \<and> maxY (map_bounds []) - minY (map_bounds []) = 0
 \<and> \<not> cameraInitialized (map_initialPlacement surface [] map_initial_state)"
  by (simp add: coordinateData_def sys_coordinateData_def map_bounds_def sysX_def sysY_def
      js_or_def Let_def single_system_def surface_def planet_box_def
      sys_initialPlacement_def sys_initialCamera_def map_initialPlacement_def
      map_initial_state_def toScreenX_def toScreenY_def toCanvasX_def toCanvasY_def)

text \<open>
  C1 (amended): for every entity set whose bounding box has zero width and zero height,
  and for every surface size, both divisors of the fit-scale default to 1, so that
  nothing is divided by zero, and the scale is
  \<open>min (width - 2 * padding) (height - 2 * padding)\<close> with the padding of the view (50 in
  the map view, 100 in the system view). The camera is still initialised, with the single
  projected position at the centre of the surface, in the map view when the set is not
  empty, and in the system view when the box lies at the origin.
\<close>

theorem C1_zero_bbox:
  assumes "maxX (map_bounds systems) = minX (map_bounds systems)"
      and "maxY (map_bounds systems) = minY (map_bounds systems)"
      and "maxX ob = minX ob" and "maxY ob = minY ob"
  shows "js_or (maxX (map_bounds systems) - minX (map_bounds systems)) 1 = 1
       \<and> js_or (maxY (map_bounds systems) - minY (map_bounds systems)) 1 = 1
       \<and> scale (coordinateData d (map_bounds systems)) = min (width d - 100) (height d - 100)
       \<and> (systems \<noteq> [] \<longrightarrow>
            cameraInitialized (map_initialPlacement d systems st)
          \<and> toScreenX d (camera_state (map_initialPlacement d systems st))
               (toCanvasX (coordinateData d (map_bounds systems)) (minX (map_bounds systems)))
             = width d / 2
          \<and> toScreenY d (camera_state (map_initialPlacement d systems st))
               (toCanvasY d (coordinateData d (map_bounds systems)) (minY (map_bounds systems)))
             = height d / 2)
       \<and> js_or (maxX ob - minX ob) 1 = 1
       \<and> js_or (maxY ob - minY ob) 1 = 1
       \<and> scale (sys_coordinateData d ob) = min (width d - 200) (height d - 200)
       \<and> (minX ob = 0 \<and> minY ob = 0 \<longrightarrow>
            cameraInitialized (sys_initialPlacement d ob st)
          \<and> toScreenX d (camera_state (sys_initialPlacement d ob st))
               (toCanvasX (sys_coordinateData d ob) (minX ob)) = width d / 2
          \<and> toScreenY d (camera_state (sys_initialPlacement d ob st))
               (toCanvasY d (sys_coordinateData d ob) (minY ob)) = height d / 2)"
  using assms
  by (simp add: coordinateData_def sys_coordinateData_def js_or_def Let_def
      map_initialPlacement_def sys_initialPlacement_def initialCamera_def sys_initialCamera_def
      toScreenX_def toScreenY_def toCanvasX_def toCanvasY_def field_simps)

theorem C1_zero_bbox_witness:
  "maxX (map_bounds [single_system]) = minX (map_bounds [single_system])
 \<and> maxY (map_bounds [single_system]) = minY (map_bounds [single_system])
 \<and> scale (coordinateData surface (map_bounds [single_system])) = 500
 \<and> cameraInitialized (map_initialPlacement surface [single_system] map_initial_state)
 \<and> toScreenX surface
      (camera_state (map_initialPlacement surface [single_system] map_initial_state))
      (toCanvasX (coordinateData surface (map_bounds [single_system])) 3) = 400
 \<and> toScreenY surface
      (camera_state (map_initialPlacement surface [single_system] map_initial_state))
      (toCanvasY surface (coordinateData surface (map_bounds [single_system])) 4) = 300
 \<and> maxX origin_box = minX origin_box \<and> maxY origin_box = minY origin_box
 \<and> minX origin_box = 0 \<and> minY origin_box = 0
 \<and> scale (sys_coordinateData surface origin_box) = 400
 \<and> toScreenX surface (camera_state (sys_initialPlacement surface origin_box sys_initial_state))
      (toCanvasX (sys_coordinateData surface origin_box) 0) = 400
 \<and> toScreenY surface (camera_state (sys_initialPlacement surface origin_box sys_initial_state))
      (toCanvasY surface (sys_coordinateData surface origin_box) 0) = 300"
proof -
  have b: "map_bounds [single_system] = \<lparr>minX = 3, minY = 4, maxX = 3, maxY = 4\<rparr>"
    by (simp add: map_bounds_def sysX_def sysY_def single_system_def)
  have h1: "maxX (map_bounds [single_system]) = minX (map_bounds [single_system])"
    by (simp add: b)
  have h2: "maxY (map_bounds [single_system]) = minY (map_bounds [single_system])"
    by (simp add: b)
  have h3: "maxX origin_box = minX origin_box" by (simp add: origin_box_def)
  have h4: "maxY origin_box = minY origin_box" by (simp add: origin_box_def)
  have o: "minX origin_box = 0" "minY origin_box = 0" by (simp_all add: origin_box_def)
  show ?thesis
    using C1_zero_bbox[OF h1 h2 h3 h4, where d = surface and st = map_initial_state]
      C1_zero_bbox[OF h1 h2 h3 h4, where d = surface and st = sys_initial_state]
      h1 h2 h3 h4 o
    by (simp add: b surface_def)
qed

subsection \<open>Cursor-anchored zoom\<close>

lemma wheel_zoom: "zoom (handleWheelFrame d cam mx my dl) = max (1 / 10) (min 10 (zoom cam * (1 + dl)))"
  by (simp add: handleWheelFrame_def Let_def)

lemma wheel_zoom_ok: "zoom_ok (handleWheelFrame d cam mx my dl)"
  by (simp add: zoom_ok_def wheel_zoom)

lemma wheel_worldX:
  assumes "zoom cam \<noteq> 0"
  shows "toWorldX d (handleWheelFrame d cam mx my dl) mx = toWorldX d cam mx"
proof -
  have nz: "max (1 / 10) (min 10 (zoom cam * (1 + dl))) \<noteq> (0::real)" by simp
  show ?thesis
    using nz by (simp add: toWorldX_def handleWheelFrame_def Let_def)
qed

lemma wheel_worldY:
  assumes "zoom cam \<noteq> 0"
  shows "toWorldY d (handleWheelFrame d cam mx my dl) my = toWorldY d cam my"
proof -
  have nz: "max (1 / 10) (min 10 (zoom cam * (1 + dl))) \<noteq> (0::real)" by simp
  show ?thesis
    using nz by (simp add: toWorldY_def handleWheelFrame_def Let_def)
qed

lemma wheel_screenX:
  assumes "zoom cam \<noteq> 0"
  shows "toScreenX d (handleWheelFrame d cam mx my dl) (toWorldX d cam mx) = mx"
  by (simp add: toScreenX_def toWorldX_def handleWheelFrame_def Let_def)

lemma wheel_screenY:
  assumes "zoom cam \<noteq> 0"
  shows "toScreenY d (handleWheelFrame d cam mx my dl) (toWorldY d cam my) = my"
  by (simp add: toScreenY_def toWorldY_def handleWheelFrame_def Let_def)

lemma zoom_ok_nz: "zoom_ok c \<Longrightarrow> zoom c \<noteq> 0"
  by (auto simp: zoom_ok_def)

lemma wheelSeq_snoc: "wheelSeq d mx my cam (ds @ [dl]) = handleWheelFrame d (wheelSeq d mx my cam ds) mx my dl"
  by (simp add: wheelSeq_def)

lemma wheelSeq_ok: "zoom_ok cam \<Longrightarrow> zoom_ok (wheelSeq d mx my cam ds)"
  by (induction ds rule: rev_induct) (simp_all add: wheelSeq_snoc wheel_zoom_ok, simp add: wheelSeq_def)

lemma wheelSeq_world:
  "zoom_ok cam \<Longrightarrow> toWorldX d (wheelSeq d mx my cam ds) mx = toWorldX d cam mx
     \<and> toWorldY d (wheelSeq d mx my cam ds) my = toWorldY d cam my"
proof (induction ds rule: rev_induct)
  case Nil
  then show ?case by (simp add: wheelSeq_def)
next
  case (snoc dl ds)
  have "zoom (wheelSeq d mx my cam ds) \<noteq> 0"
    using snoc.prems wheelSeq_ok zoom_ok_nz by blast
  then show ?case
    using snoc by (simp add: wheelSeq_snoc wheel_worldX wheel_worldY)
qed

text \<open>
  The frame callback as a function of the camera it reads, which is \<open>cameraRef.current\<close>:
  for that camera the zoom is clamped and the world point under the cursor is kept, after
  every step of a sequence of frames.
\<close>

lemma handleWheelFrame_anchor:
  assumes "zoom_ok cam"
  shows "zoom (handleWheelFrame d cam mx my dl) = max (1 / 10) (min 10 (zoom cam * (1 + dl)))
       \<and> toWorldX d (handleWheelFrame d cam mx my dl) mx = toWorldX d cam mx
       \<and> toWorldY d (handleWheelFrame d cam mx my dl) my = toWorldY d cam my
       \<and> toScreenX d (handleWheelFrame d cam mx my dl) (toWorldX d cam mx) = mx
       \<and> toScreenY d (handleWheelFrame d cam mx my dl) (toWorldY d cam my) = my
       \<and> (\<forall>k \<le> length ds.
             toWorldX d (wheelSeq d mx my cam (take k ds)) mx = toWorldX d cam mx
           \<and> toWorldY d (wheelSeq d mx my cam (take k ds)) my = toWorldY d cam my
           \<and> zoom_ok (wheelSeq d mx my cam (take k ds)))"
  using assms zoom_ok_nz[OF assms]
  by (simp add: wheel_zoom wheel_worldX wheel_worldY wheel_screenX wheel_screenY
      wheelSeq_world wheelSeq_ok)

lemma after_select_cameras:
  "camera_state after_select = \<lparr>cam_x = - 2800, cam_y = 2000, zoom = 8\<rparr>
 \<and> cameraRef after_select = \<lparr>cam_x = 0, cam_y = 0, zoom = 2\<rparr>
 \<and> cameraInitialized after_select"
proof -
  have m: "systemMap [sysA, sysB, sysC] 3 = Some sysC"
    by (simp add: systemMap_def sysA_def sysB_def sysC_def)
  have sw: "width surface = 800" "height surface = 600" by (simp_all add: surface_def)
  have p: "sysX sysC = 700" "sysY sysC = 500"
    by (simp_all add: sysX_def sysY_def sysC_def)
  have c: "toCanvasX (coordinateData surface (map_bounds [sysA, sysB, sysC])) (sysX sysC) = 750"
          "toCanvasY surface (coordinateData surface (map_bounds [sysA, sysB, sysC])) (sysY sysC) = 50"
    by (simp_all add: coordinateData_ABC toCanvasX_def toCanvasY_def p sw)
  have i: "initialCamera surface (coordinateData surface (map_bounds [sysA, sysB, sysC]))
             = \<lparr>cam_x = 0, cam_y = 0, zoom = 2\<rparr>"
    by (simp add: coordinateData_ABC initialCamera_def sw)
  show ?thesis
    by (simp add: after_select_def selectC_def map_initialPlacement_def handleSelectResult_def
        map_initial_state_def m c i Let_def sw)
qed

text \<open>
  C4: the zoom update sets the new zoom to \<open>clamp (zoom * (1 + d)) 0.1 10\<close> and keeps the
  world point under the cursor. The code breaks this after a search selection:
  \<open>handleSelectResult\<close> sets only the rendered camera, the wheel frame reads the stale
  \<open>cameraRef\<close>. With the systems A, B, C on an 800 x 600 surface, after the initial
  placement and the selection of C the rendered camera is \<open>{-2800, 2000, 8}\<close> and the
  cursor at \<open>(400, 300)\<close> is over the world point \<open>(750, 50)\<close>; a wheel frame with delta 0.1
  renders the camera \<open>{0, 0, 2.2}\<close>: the zoom is 2.2 and not \<open>clamp (8 * 1.1) = 8.8\<close>, and
  the cursor is over the world point \<open>(400, 300)\<close>.
\<close>

theorem C4_wheel_after_selection:
  "camera_state after_select = \<lparr>cam_x = - 2800, cam_y = 2000, zoom = 8\<rparr>
 \<and> cameraRef after_select = \<lparr>cam_x = 0, cam_y = 0, zoom = 2\<rparr>
 \<and> toWorldX surface (camera_state after_select) 400 = 750
 \<and> toWorldY surface (camera_state after_select) 300 = 50
 \<and> max (1 / 10) (min 10 (zoom (camera_state after_select) * (1 + 1 / 10))) = 44 / 5
 \<and> camera_state (map_step surface [sysA, sysB, sysC] after_select (WheelFrame 400 300 (1 / 10)))
     = \<lparr>cam_x = 0, cam_y = 0, zoom = 11 / 5\<rparr>
 \<and> toWorldX surface
      (camera_state (map_step surface [sysA, sysB, sysC] after_select (WheelFrame 400 300 (1 / 10))))
      400 = 400
 \<and> toWorldY surface
      (camera_state (map_step surface [sysA, sysB, sysC] after_select (WheelFrame 400 300 (1 / 10))))
      300 = 300"
proof -
  have sw: "width surface = 800" "height surface = 600" by (simp_all add: surface_def)
  have w: "camera_state (wheelFrame surface 400 300 (1 / 10) after_select)
             = \<lparr>cam_x = 0, cam_y = 0, zoom = 11 / 5\<rparr>"
    using after_select_cameras
    by (simp add: wheelFrame_def handleWheelFrame_def Let_def sw)
  show ?thesis
    using after_select_cameras
    by (simp add: w toWorldX_def toWorldY_def sw)
qed

subsection \<open>Zoom clamping\<close>

lemma inv_handlers:
  "inv_zoom st \<Longrightarrow> inv_zoom (handleMouseDown cx cy st)"
  "inv_zoom st \<Longrightarrow> inv_zoom (handleMouseMove cx cy st)"
  "inv_zoom st \<Longrightarrow> inv_zoom (dragFrame st)"
  "inv_zoom st \<Longrightarrow> inv_zoom (handleMouseUp st)"
  "inv_zoom st \<Longrightarrow> inv_zoom (handleMouseLeave st)"
  "inv_zoom st \<Longrightarrow> inv_zoom (wheelFrame d mx my dl st)"
  by (simp_all add: inv_zoom_def handleMouseDown_def handleMouseMove_def dragFrame_def
      handleMouseUp_def handleMouseLeave_def wheelFrame_def Let_def wheel_zoom_ok)
     (simp_all add: zoom_ok_def)

lemma inv_select: "inv_zoom st \<Longrightarrow> inv_zoom (handleSelectResult d systems r st)"
  by (simp add: inv_zoom_def handleSelectResult_def Let_def zoom_ok_def
      split: result_type.splits option.splits)

lemma inv_map_init: "inv_zoom st \<Longrightarrow> inv_zoom (map_initialPlacement d systems st)"
  by (simp add: inv_zoom_def map_initialPlacement_def Let_def zoom_ok_def initialCamera_def)

lemma inv_sys_init: "inv_zoom st \<Longrightarrow> inv_zoom (sys_initialPlacement d ob st)"
  by (simp add: inv_zoom_def sys_initialPlacement_def Let_def zoom_ok_def sys_initialCamera_def)

lemma inv_map_step: "inv_zoom st \<Longrightarrow> inv_zoom (map_step d systems st e)"
  by (cases e) (simp_all add: inv_handlers inv_select inv_map_init)

lemma inv_sys_step: "inv_zoom st \<Longrightarrow> inv_zoom (sys_step d ob st e)"
  by (cases e) (simp_all add: inv_handlers inv_sys_init)

lemma inv_map_run: "inv_zoom st \<Longrightarrow> inv_zoom (foldl (map_step d systems) st evs)"
  by (induction evs arbitrary: st) (simp_all add: inv_map_step)

lemma inv_sys_run: "inv_zoom st \<Longrightarrow> inv_zoom (foldl (sys_step d ob) st evs)"
  by (induction evs arbitrary: st) (simp_all add: inv_sys_step)

lemma inv_initial: "inv_zoom map_initial_state" "inv_zoom sys_initial_state"
  by (simp_all add: inv_zoom_def map_initial_state_def sys_initial_state_def zoom_ok_def)

text \<open>
  C5: after every sequence of camera operations (initial placement, wheel frames with an
  arbitrary accumulated delta, drag pan, search-result selection) the zoom of the camera,
  both of the rendered state and of the mutable reference, lies in [0.1, 10]; in the map
  view and in the system view.
\<close>

theorem C5_zoom_clamped:
  "zoom_ok (camera_state (foldl (map_step d systems) map_initial_state evs))
 \<and> zoom_ok (cameraRef (foldl (map_step d systems) map_initial_state evs))
 \<and> zoom_ok (camera_state (foldl (sys_step d ob) sys_initial_state evs))
 \<and> zoom_ok (cameraRef (foldl (sys_step d ob) sys_initial_state evs))"
  using inv_map_run[OF inv_initial(1), of d systems evs] inv_sys_run[OF inv_initial(2), of d ob evs]
  by (simp add: inv_zoom_def)


subsection \<open>Hit-test radius of the system view\<close>

lemma checkObject_inv:
  "acc_inv cam wx wy buffer adj acc \<Longrightarrow> acc_inv cam wx wy buffer adj (checkObject cam wx wy buffer adj kind acc obj)"
  by (auto simp: acc_inv_def checkObject_def hit_ok_def Let_def detectionRadius_def split: option.splits)

lemma fold_checkObject_inv:
  "acc_inv cam wx wy buffer adj acc \<Longrightarrow> acc_inv cam wx wy buffer adj (foldl (checkObject cam wx wy buffer adj kind) acc objs)"
  by (induction objs arbitrary: acc) (simp_all add: checkObject_inv)

lemma checkObject_keeps:
  "snd acc \<noteq> None \<Longrightarrow> snd (checkObject cam wx wy buffer adj kind acc obj) \<noteq> None"
  by (auto simp: checkObject_def Let_def split: option.splits)

lemma fold_checkObject_keeps:
  "snd acc \<noteq> None \<Longrightarrow> snd (foldl (checkObject cam wx wy buffer adj kind) acc objs) \<noteq> None"
proof (induction objs arbitrary: acc)
  case Nil
  then show ?case by simp
next
  case (Cons o1 objs)
  show ?case
    using Cons.IH[OF checkObject_keeps[OF Cons.prems]] by simp
qed

lemma checkObject_hits:
  assumes "acc_inv cam wx wy buffer adj acc" "adj obj = Some a"
     "distance2 (wx - adj_x a) (wy - adj_y a) < adj_radius a / zoom cam + buffer"
  shows "snd (checkObject cam wx wy buffer adj kind acc obj) \<noteq> None"
  using assms
  by (cases "fst acc"; cases "snd acc") (auto simp: checkObject_def Let_def detectionRadius_def acc_inv_def)

lemma fold_checkObject_hits:
  assumes "acc_inv cam wx wy buffer adj acc" "obj \<in> set objs" "adj obj = Some a"
     "distance2 (wx - adj_x a) (wy - adj_y a) < adj_radius a / zoom cam + buffer"
  shows "snd (foldl (checkObject cam wx wy buffer adj kind) acc objs) \<noteq> None"
  using assms
proof (induction objs arbitrary: acc)
  case Nil
  then show ?case by simp
next
  case (Cons o1 objs)
  show ?case
  proof (cases "obj = o1")
    case True
    then have "snd (checkObject cam wx wy buffer adj kind acc o1) \<noteq> None"
      using Cons.prems checkObject_hits by blast
    then show ?thesis by (simp add: fold_checkObject_keeps)
  next
    case False
    then have "obj \<in> set objs" using Cons.prems by simp
    then show ?thesis
      using Cons.IH[OF checkObject_inv[OF Cons.prems(1)]] Cons.prems by simp
  qed
qed

lemma find_sound:
  assumes "findObjectAtPosition d cam (Some sd) adj mx my buffer = Some f"
  shows "hit_ok cam (toWorldX d cam mx) (toWorldY d cam my) buffer adj f"
proof -
  let ?wx = "toWorldX d cam mx" and ?wy = "toWorldY d cam my"
  let ?chk = "checkObject cam ?wx ?wy buffer adj"
  let ?a1 = "(case sd_star sd of None \<Rightarrow> (None, None) | Some star \<Rightarrow> ?chk Star (None, None) star)"
  have i0: "acc_inv cam ?wx ?wy buffer adj (None, None)" by (simp add: acc_inv_def)
  have i1: "acc_inv cam ?wx ?wy buffer adj ?a1"
    using i0 by (cases "sd_star sd") (simp_all add: checkObject_inv)
  have "acc_inv cam ?wx ?wy buffer adj
          (foldl (?chk Station) (foldl (?chk Stargate) (foldl (?chk Planet) ?a1 (sd_planets sd)) (sd_stargates sd)) (sd_stations sd))"
    by (intro fold_checkObject_inv i1)
  then show ?thesis
    using assms by (simp add: findObjectAtPosition_def Let_def acc_inv_def)
qed

lemma find_complete:
  assumes "obj \<in> listed sd" "adj obj = Some a"
    "distance2 (toWorldX d cam mx - adj_x a) (toWorldY d cam my - adj_y a) < adj_radius a / zoom cam + buffer"
  shows "findObjectAtPosition d cam (Some sd) adj mx my buffer \<noteq> None"
proof -
  let ?wx = "toWorldX d cam mx" and ?wy = "toWorldY d cam my"
  let ?chk = "checkObject cam ?wx ?wy buffer adj"
  let ?a1 = "(case sd_star sd of None \<Rightarrow> (None, None) | Some star \<Rightarrow> ?chk Star (None, None) star)"
  let ?a2 = "foldl (?chk Planet) ?a1 (sd_planets sd)"
  let ?a3 = "foldl (?chk Stargate) ?a2 (sd_stargates sd)"
  let ?a4 = "foldl (?chk Station) ?a3 (sd_stations sd)"
  have i0: "acc_inv cam ?wx ?wy buffer adj (None, None)" by (simp add: acc_inv_def)
  have i1: "acc_inv cam ?wx ?wy buffer adj ?a1"
    using i0 by (cases "sd_star sd") (simp_all add: checkObject_inv)
  have i2: "acc_inv cam ?wx ?wy buffer adj ?a2" by (intro fold_checkObject_inv i1)
  have i3: "acc_inv cam ?wx ?wy buffer adj ?a3" by (intro fold_checkObject_inv i2)
  consider (s) "sd_star sd = Some obj" | (p) "obj \<in> set (sd_planets sd)"
    | (g) "obj \<in> set (sd_stargates sd)" | (t) "obj \<in> set (sd_stations sd)"
    using assms(1) by (auto simp: listed_def)
  then have "snd ?a4 \<noteq> None"
  proof cases
    case s
    then have "snd ?a1 \<noteq> None" using checkObject_hits[OF i0 assms(2,3)] by simp
    then have "snd ?a2 \<noteq> None" by (rule fold_checkObject_keeps)
    then have "snd ?a3 \<noteq> None" by (rule fold_checkObject_keeps)
    then show ?thesis by (rule fold_checkObject_keeps)
  next
    case p
    then have "snd ?a2 \<noteq> None" using fold_checkObject_hits[OF i1 _ assms(2,3)] by simp
    then have "snd ?a3 \<noteq> None" by (rule fold_checkObject_keeps)
    then show ?thesis by (rule fold_checkObject_keeps)
  next
    case g
    then have "snd ?a3 \<noteq> None" using fold_checkObject_hits[OF i2 _ assms(2,3)] by simp
    then show ?thesis by (rule fold_checkObject_keeps)
  next
    case t
    then show ?thesis using fold_checkObject_hits[OF i3 _ assms(2,3)] by simp
  qed
  then show ?thesis by (simp add: findObjectAtPosition_def Let_def)
qed

text \<open>
  What the query computes: a result is a marker of the position cache nearer to the
  cursor's world position than \<open>radius / zoom + buffer\<close>, and whenever some scanned marker
  is that near the query returns a result.
\<close>

lemma findObjectAtPosition_radius:
  "(findObjectAtPosition d cam (Some sd) adj mx my buffer = Some f \<longrightarrow>
      (\<exists>b. adj (f_obj f) = Some b
         \<and> f_distance f = distance2 (toWorldX d cam mx - adj_x b) (toWorldY d cam my - adj_y b)
         \<and> f_distance f < detectionRadius cam buffer b))
 \<and> (obj \<in> listed sd \<and> adj obj = Some a
      \<and> distance2 (toWorldX d cam mx - adj_x a) (toWorldY d cam my - adj_y a)
            < detectionRadius cam buffer a
      \<longrightarrow> findObjectAtPosition d cam (Some sd) adj mx my buffer \<noteq> None)"
proof -
  have r: "\<And>c. detectionRadius cam buffer c = adj_radius c / zoom cam + buffer"
    by (simp add: detectionRadius_def)
  have s: "findObjectAtPosition d cam (Some sd) adj mx my buffer = Some f \<longrightarrow>
      (\<exists>b. adj (f_obj f) = Some b
         \<and> f_distance f = distance2 (toWorldX d cam mx - adj_x b) (toWorldY d cam my - adj_y b)
         \<and> f_distance f < detectionRadius cam buffer b)"
    using find_sound[of d cam sd adj mx my buffer f]
    by (auto simp: hit_ok_def r split: option.splits)
  have c: "obj \<in> listed sd \<and> adj obj = Some a
      \<and> distance2 (toWorldX d cam mx - adj_x a) (toWorldY d cam my - adj_y a)
            < detectionRadius cam buffer a
      \<longrightarrow> findObjectAtPosition d cam (Some sd) adj mx my buffer \<noteq> None"
    using find_complete[of obj sd adj a d cam mx my buffer] by (simp add: r)
  show ?thesis
    using s c by blast
qed

text \<open>
  C7: the detection radius of a marker is its drawn radius plus the pixel buffer (3 for
  hover, 5 for click), the whole sum divided by the zoom. The code divides only the
  radius: \<open>adjusted.radius / cam.zoom + detectionBuffer\<close>. At zoom 2, for a planet of
  radius 6 at \<open>(400, 300)\<close>, the claimed radii are \<open>(6 + 3) / 2 = 4.5\<close> and
  \<open>(6 + 5) / 2 = 5.5\<close>; the hover query still finds the planet from the cursor
  \<open>(410, 300)\<close>, at world distance 5, and the click query from the cursor \<open>(414, 300)\<close>, at
  world distance 7.
\<close>

theorem C7_buffer_not_scaled:
  "detectionRadius cam2 3 (the (planet_cache 1)) = 6
 \<and> (adj_radius (the (planet_cache 1)) + 3) / zoom cam2 = 9 / 2
 \<and> hoverFind surface cam2 (Some one_planet) planet_cache 410 300
     = Some \<lparr>f_kind = Planet, f_obj = 1, f_distance = 5\<rparr>
 \<and> detectionRadius cam2 5 (the (planet_cache 1)) = 8
 \<and> (adj_radius (the (planet_cache 1)) + 5) / zoom cam2 = 11 / 2
 \<and> clickFind surface cam2 (Some one_planet) planet_cache 414 300
     = Some \<lparr>f_kind = Planet, f_obj = 1, f_distance = 7\<rparr>"
  by (simp add: hoverFind_def clickFind_def findObjectAtPosition_def one_planet_def
      planet_cache_def Let_def toWorldX_def toWorldY_def checkObject_def detectionRadius_def
      distance2_axis surface_def cam2_def)

subsection \<open>Click query of the map view\<close>

text \<open>
  C2: the click query of the map view returns the nearest system within the click radius.
  The code returns the first system of the array within the radius instead: with systems
  A, B, C projected to (50, 550), (53, 550), (750, 50) and a click at (54, 550) at zoom 1,
  A is at distance 4 and B at distance 1, the click navigates to A, while the hover query
  of the same view, at the same position, reports B.
\<close>

theorem C2_click_first_not_nearest:
  "mouseUpNavigate surface (clicked_state 54 550) [sysA, sysB, sysC] (0, 0) 54 550
     = Some (sys_key sysA)
 \<and> clickQuery surface cam1 [sysA, sysB, sysC] 54 550 = Some (sys_key sysA)
 \<and> hoverQuery surface cam1 [sysA, sysB, sysC] 54 550 = Some sysB
 \<and> distance2
      (toWorldX surface cam1 54
         - toCanvasX (coordinateData surface (map_bounds [sysA, sysB, sysC])) (sysX sysA))
      (toWorldY surface cam1 550
         - toCanvasY surface (coordinateData surface (map_bounds [sysA, sysB, sysC])) (sysY sysA))
     = 4
 \<and> distance2
      (toWorldX surface cam1 54
         - toCanvasX (coordinateData surface (map_bounds [sysA, sysB, sysC])) (sysX sysB))
      (toWorldY surface cam1 550
         - toCanvasY surface (coordinateData surface (map_bounds [sysA, sysB, sysC])) (sysY sysB))
     = 1"
  by (simp add: mouseUpNavigate_def clicked_state_def handleMouseDown_def map_initial_state_def
      clickQuery_def hoverQuery_def hoverStep_def coordinateData_ABC Let_def
      toWorldX_def toWorldY_def toCanvasX_def toCanvasY_def distance2_axis sysX_def sysY_def)
     (simp add: surface_def cam1_def sysA_def sysB_def sysC_def distance2_axis distance2_def)

subsection \<open>Stargate connections\<close>

lemma of_char_digit: "n < 10 \<Longrightarrow> of_char (digit_char n) = (48 + n :: nat)"
  unfolding digit_char_def by (simp only: of_char_of) simp

lemma of_char_hyphen: "of_char hyphen = (45::nat)"
  unfolding hyphen_def by simp

lemma digit_char_inj: "n < 10 \<Longrightarrow> m < 10 \<Longrightarrow> digit_char n = digit_char m \<Longrightarrow> n = m"
proof -
  assume a: "n < 10" "m < 10" "digit_char n = digit_char m"
  have "(of_char (digit_char n) :: nat) = of_char (digit_char m)" using a(3) by (simp only:)
  then have "48 + n = 48 + m" using of_char_digit[OF a(1)] of_char_digit[OF a(2)] by (simp only:)
  then show "n = m" by arith
qed

lemma digit_char_not_hyphen: "n < 10 \<Longrightarrow> digit_char n \<noteq> hyphen"
proof
  assume a: "n < 10" "digit_char n = hyphen"
  have "(of_char (digit_char n) :: nat) = of_char hyphen" using a(2) by (simp only:)
  then have "48 + n = (45::nat)" using of_char_digit[OF a(1)] of_char_hyphen by (simp only:)
  then show False by arith
qed


lemma show_nat_small: "n < 10 \<Longrightarrow> show_nat n = [digit_char n]"
  by (subst show_nat.simps) (simp only: if_True)

lemma show_nat_large: "\<not> n < 10 \<Longrightarrow> show_nat n = show_nat (n div 10) @ [digit_char (n mod 10)]"
  by (subst show_nat.simps) (simp only: if_False)

lemma show_nat_no_hyphen: "hyphen \<notin> set (show_nat n)"
proof (induction n rule: show_nat.induct)
  case (1 n)
  show ?case
  proof (cases "n < 10")
    case True
    then show ?thesis
      using digit_char_not_hyphen[of n] by (simp add: show_nat_small)
  next
    case False
    have "n mod 10 < 10" by simp
    then have "digit_char (n mod 10) \<noteq> hyphen" by (rule digit_char_not_hyphen)
    then show ?thesis
      using 1[OF False] by (simp add: show_nat_large[OF False])
  qed
qed

lemma show_nat_nonempty: "show_nat n \<noteq> []"
proof (cases "n < 10")
  case True
  then show ?thesis by (simp add: show_nat_small)
next
  case False
  then show ?thesis by (simp add: show_nat_large[OF False])
qed

lemma show_nat_inj: "show_nat n = show_nat m \<Longrightarrow> n = m"
proof (induction n arbitrary: m rule: show_nat.induct)
  case (1 n)
  show ?case
  proof (cases "n < 10")
    case n: True
    show ?thesis
    proof (cases "m < 10")
      case True
      then have "digit_char n = digit_char m"
        using "1.prems" by (simp add: show_nat_small[OF n] show_nat_small[OF True])
      then show ?thesis using n True digit_char_inj by blast
    next
      case False
      have "[digit_char n] = show_nat (m div 10) @ [digit_char (m mod 10)]"
        using "1.prems" by (simp add: show_nat_small[OF n] show_nat_large[OF False])
      then show ?thesis
        using show_nat_nonempty[of "m div 10"] by simp
    qed
  next
    case n: False
    show ?thesis
    proof (cases "m < 10")
      case True
      have "show_nat (n div 10) @ [digit_char (n mod 10)] = [digit_char m]"
        using "1.prems" by (simp add: show_nat_small[OF True] show_nat_large[OF n])
      then show ?thesis
        using show_nat_nonempty[of "n div 10"] by simp
    next
      case False
      have "show_nat (n div 10) @ [digit_char (n mod 10)]
                   = show_nat (m div 10) @ [digit_char (m mod 10)]"
        using "1.prems" by (simp add: show_nat_large[OF n] show_nat_large[OF False])
      then have e: "show_nat (n div 10) = show_nat (m div 10)"
        and l: "digit_char (n mod 10) = digit_char (m mod 10)"
        by simp_all
      have "n div 10 = m div 10" using "1.IH"[OF n e] .
      moreover have "n mod 10 = m mod 10"
        using digit_char_inj[OF _ _ l] by simp
      ultimately show ?thesis
        by (metis div_mult_mod_eq)
    qed
  qed
qed

lemma key_inj:
  "show_nat a @ hyphen # show_nat b = show_nat c @ hyphen # show_nat d \<longleftrightarrow> a = c \<and> b = d"
  using show_nat_inj show_nat_no_hyphen
  by (auto simp: append_Cons_eq_iff)

lemma connKey_eq_iff: "connKey a b = connKey c d \<longleftrightarrow> {a, b} = {c, d}"
  by (auto simp: connKey_def key_inj doubleton_eq_iff)


lemma conn_inv_init: "conn_inv allowed [] ({}, [])"
  by (simp add: conn_inv_def)

lemma conn_inv_step:
  assumes "conn_inv allowed seen acc"
  shows "conn_inv allowed (seen @ [g]) (connStep allowed acc g)"
proof (cases "solarSystemID g \<notin> allowed \<or> destination g \<notin> allowed")
  case True
  then have "connStep allowed acc g = acc" by (auto simp: connStep_def Let_def)
  then show ?thesis using assms True by (auto simp: conn_inv_def)
next
  case ok: False
  show ?thesis
  proof (cases "connKey (solarSystemID g) (destination g) \<in> fst acc")
    case True
    then have "connStep allowed acc g = acc" using ok by (auto simp: connStep_def Let_def)
    then show ?thesis using assms True by (auto simp: conn_inv_def)
  next
    case False
    then have e: "connStep allowed acc g
        = (insert (connKey (solarSystemID g) (destination g)) (fst acc),
           snd acc @ [(solarSystemID g, destination g)])"
      using ok by (auto simp: connStep_def Let_def)
    have k: "pairKey (solarSystemID g, destination g) = connKey (solarSystemID g) (destination g)"
      by (simp add: pairKey_def)
    show ?thesis
      unfolding e conn_inv_def using assms False ok k
      by (auto simp: conn_inv_def)
  qed
qed

lemma conn_inv_fold: "conn_inv allowed gates (foldl (connStep allowed) ({}, []) gates)"
proof (induction gates rule: rev_induct)
  case Nil
  then show ?case by (simp add: conn_inv_init)
next
  case (snoc g gates)
  then show ?case using conn_inv_step[of allowed gates _ g] by simp
qed

lemma count_one:
  assumes "distinct (map f xs)" "k \<in> f ` set xs"
  shows "length (filter (\<lambda>c. f c = k) xs) = 1"
proof -
  have "length (filter (\<lambda>c. f c = k) xs) = length (filter (\<lambda>y. y = k) (map f xs))"
    by (simp add: filter_map comp_def)
  also have "\<dots> = card ({y. y = k} \<inter> set (map f xs))"
    using distinct_length_filter[OF assms(1), of "\<lambda>y. y = k"] by simp
  also have "{y. y = k} \<inter> set (map f xs) = {k}"
    using assms(2) by auto
  finally show ?thesis by simp
qed

lemma pairKey_eq: "pairKey c = connKey a b \<longleftrightarrow> {fst c, snd c} = {a, b}"
  by (simp add: pairKey_def connKey_eq_iff)

text \<open>
  C9: the endpoint stores exactly one connection for every unordered pair of allowed
  systems joined by some gate (whatever the direction and number of the gates between
  them), and every stored connection is the pair of a gate whose two systems are allowed.
\<close>

theorem C9_edge_dedup:
  "(\<forall>g \<in> set stargates. solarSystemID g \<in> allowed \<and> destination g \<in> allowed \<longrightarrow>
      length (filter (\<lambda>c. {fst c, snd c} = {solarSystemID g, destination g})
                (stargateConnections allowed stargates)) = 1)
 \<and> (\<forall>c \<in> set (stargateConnections allowed stargates).
      fst c \<in> allowed \<and> snd c \<in> allowed
      \<and> (\<exists>g \<in> set stargates. c = (solarSystemID g, destination g)))"
proof -
  let ?conns = "stargateConnections allowed stargates"
  let ?acc = "foldl (connStep allowed) ({}, []) stargates"
  have i: "conn_inv allowed stargates ?acc" by (rule conn_inv_fold)
  have s: "snd ?acc = ?conns" by (simp add: stargateConnections_def)
  have a: "length (filter (\<lambda>c. {fst c, snd c} = {solarSystemID g, destination g}) ?conns) = 1"
    if "g \<in> set stargates" "solarSystemID g \<in> allowed" "destination g \<in> allowed" for g
  proof -
    have "connKey (solarSystemID g) (destination g) \<in> pairKey ` set ?conns"
      using i that s by (auto simp: conn_inv_def)
    moreover have "distinct (map pairKey ?conns)" using i s by (auto simp: conn_inv_def)
    ultimately have "length (filter (\<lambda>c. pairKey c = connKey (solarSystemID g) (destination g)) ?conns) = 1"
      by (rule count_one[rotated])
    then show ?thesis by (simp add: pairKey_eq)
  qed
  have b: "\<forall>c \<in> set ?conns. fst c \<in> allowed \<and> snd c \<in> allowed
      \<and> (\<exists>g \<in> set stargates. c = (solarSystemID g, destination g))"
    using i s by (auto simp: conn_inv_def)
  show ?thesis using a b by blast
qed

theorem C9_edge_dedup_witness:
  "stargateConnections {1, 2} [gate12, gate21] = [(1, 2)]
 \<and> length (filter (\<lambda>c. {fst c, snd c} = {solarSystemID gate21, destination gate21})
                (stargateConnections {1, 2} [gate12, gate21])) = 1"
proof -
  have e: "stargateConnections {1, 2} [gate12, gate21] = [(1, 2)]"
    by (simp add: stargateConnections_def connStep_def connKey_def gate12_def gate21_def Let_def)
  have "gate21 \<in> set [gate12, gate21]" by simp
  moreover have "solarSystemID gate21 \<in> {1, 2::nat} \<and> destination gate21 \<in> {1, 2::nat}"
    by (simp add: gate21_def)
  ultimately have "length (filter (\<lambda>c. {fst c, snd c} = {solarSystemID gate21, destination gate21})
                (stargateConnections {1, 2} [gate12, gate21])) = 1"
    using C9_edge_dedup[of "[gate12, gate21]" "{1, 2}"] by blast
  then show ?thesis using e by simp
qed

subsection \<open>Alliance overlay\<close>

lemma dom_foldl_upd:
  "dom (foldl (\<lambda>result entry. if P entry then result(k entry \<mapsto> v entry) else result) m xs)
     = dom m \<union> {k e | e. e \<in> set xs \<and> P e}"
  by (induction xs arbitrary: m) auto

lemma overlayOf_dom:
  "dom (overlayOf nameMap (sovAllianceSystems sovMap))
     = {system_id e | e. e \<in> set sovMap \<and> truthy (alliance_id e) \<and> \<not> truthy (faction_id e)}"
  unfolding overlayOf_def sovAllianceSystems_def
  by (simp only: dom_foldl_upd) auto

lemma clientAllianceData_success:
  assumes "\<not> cacheFresh cachedData now"
    and "getNames (sovAllianceIds (sovAllianceSystems sovMap)) = Inr allianceNames"
  shows "clientAllianceData cachedData now later (Inr sovMap) getNames
           = overlayOf (allianceNameMap allianceNames) (sovAllianceSystems sovMap)"
  using assms
  by (simp add: clientAllianceData_def GET_allianceSovereignty_def loadAllianceSovereignty_def Let_def)

lemma clientAllianceData_failure:
  assumes "\<not> cacheFresh cachedData now"
  shows "clientAllianceData cachedData now later (Inl err) getNames = Map.empty"
    and "getNames (sovAllianceIds (sovAllianceSystems sovMap)) = Inl err
           \<Longrightarrow> clientAllianceData cachedData now later (Inr sovMap) getNames = Map.empty"
  using assms
  by (simp_all add: clientAllianceData_def GET_allianceSovereignty_def loadAllianceSovereignty_def
      Let_def)

lemma allianceSystems_skip:
  assumes "ad (sys_key sys) = None"
  shows "foldl (allianceSystemsStep d cd ad) groups (removeAll sys systems)
           = foldl (allianceSystemsStep d cd ad) groups systems"
proof (induction systems arbitrary: groups)
  case Nil
  then show ?case by simp
next
  case (Cons s systems)
  show ?case
  proof (cases "s = sys")
    case True
    then have "allianceSystemsStep d cd ad groups s = groups"
      using assms by (simp add: allianceSystemsStep_def)
    then show ?thesis using True Cons by simp
  next
    case False
    then show ?thesis using Cons by simp
  qed
qed

text \<open>
  C10 (as stated in the specification): the alliance overlay contains an entry for a
  system if and only if the remote sovereignty map lists that system with an alliance id
  and without a faction id. This fails when the name lookup fails: the endpoint answers
  500, the client sets its overlay to the empty object, and system 1, listed with alliance
  99 and no faction, has no entry.
\<close>

theorem C10_lookup_failure_counterexample:
  "sov1 ! 0 \<in> set sov1
 \<and> system_id (sov1 ! 0) = 1
 \<and> alliance_id (sov1 ! 0) = Some 99
 \<and> faction_id (sov1 ! 0) = None
 \<and> snd (GET_allianceSovereignty None 0 0 (Inr sov1) noNames) = Inl 500
 \<and> clientAllianceData None 0 0 (Inr sov1) noNames 1 = None"
  by (simp add: sov1_def noNames_def clientAllianceData_def GET_allianceSovereignty_def
      loadAllianceSovereignty_def cacheFresh_def Let_def)

text \<open>
  C10 (amended): when the endpoint has no fresh cached overlay and both remote lookups
  succeed, the alliance overlay has an entry for a system exactly when the sovereignty map
  lists it with an alliance id and without a faction id (presence as the code tests it:
  the field is there and not 0), and a system all of whose entries carry a faction id has
  no entry even when an alliance id is present; when a lookup fails the overlay of the
  client is empty; and in every case a system without an entry is drawn in the neutral
  colour and contributes to no alliance group in alliance mode.
\<close>

theorem C10_alliance_overlay:
  "(\<not> cacheFresh cachedData now
      \<and> getNames (sovAllianceIds (sovAllianceSystems sovMap)) = Inr allianceNames \<longrightarrow>
      (s \<in> dom (clientAllianceData cachedData now later (Inr sovMap) getNames) \<longleftrightarrow>
         (\<exists>e \<in> set sovMap. system_id e = s \<and> truthy (alliance_id e) \<and> \<not> truthy (faction_id e)))
    \<and> ((\<forall>e \<in> set sovMap. system_id e = s \<longrightarrow> truthy (faction_id e))
         \<longrightarrow> clientAllianceData cachedData now later (Inr sovMap) getNames s = None))
 \<and> (\<not> cacheFresh cachedData now \<longrightarrow>
      clientAllianceData cachedData now later (Inl err) getNames = Map.empty)
 \<and> (\<not> cacheFresh cachedData now
      \<and> getNames (sovAllianceIds (sovAllianceSystems sovMap)) = Inl err \<longrightarrow>
      clientAllianceData cachedData now later (Inr sovMap) getNames = Map.empty)
 \<and> (clientAllianceData cachedData now later reply getNames (sys_key sys) = None \<longrightarrow>
      allianceModeColor (Some (clientAllianceData cachedData now later reply getNames)) sys = HSL 0 0 30
    \<and> allianceSystemsOf d cd (clientAllianceData cachedData now later reply getNames)
          (removeAll sys systems)
        = allianceSystemsOf d cd (clientAllianceData cachedData now later reply getNames) systems)"
proof -
  let ?ad = "clientAllianceData cachedData now later (Inr sovMap) getNames"
  have a: "(s \<in> dom ?ad \<longleftrightarrow>
         (\<exists>e \<in> set sovMap. system_id e = s \<and> truthy (alliance_id e) \<and> \<not> truthy (faction_id e)))
    \<and> ((\<forall>e \<in> set sovMap. system_id e = s \<longrightarrow> truthy (faction_id e)) \<longrightarrow> ?ad s = None)"
    if h: "\<not> cacheFresh cachedData now"
          "getNames (sovAllianceIds (sovAllianceSystems sovMap)) = Inr allianceNames"
  proof -
    have e: "?ad = overlayOf (allianceNameMap allianceNames) (sovAllianceSystems sovMap)"
      using h by (rule clientAllianceData_success)
    have d: "s \<in> dom ?ad \<longleftrightarrow>
         (\<exists>e \<in> set sovMap. system_id e = s \<and> truthy (alliance_id e) \<and> \<not> truthy (faction_id e))"
      unfolding e overlayOf_dom by auto
    then have "(\<forall>e \<in> set sovMap. system_id e = s \<longrightarrow> truthy (faction_id e)) \<longrightarrow> ?ad s = None"
      by (auto simp: domIff)
    then show ?thesis using d by blast
  qed
  have b: "\<not> cacheFresh cachedData now \<longrightarrow>
      clientAllianceData cachedData now later (Inl err) getNames = Map.empty"
    using clientAllianceData_failure(1) by blast
  have c: "\<not> cacheFresh cachedData now
      \<and> getNames (sovAllianceIds (sovAllianceSystems sovMap)) = Inl err \<longrightarrow> ?ad = Map.empty"
    using clientAllianceData_failure(2) by blast
  have g: "clientAllianceData cachedData now later reply getNames (sys_key sys) = None \<longrightarrow>
      allianceModeColor (Some (clientAllianceData cachedData now later reply getNames)) sys = HSL 0 0 30
    \<and> allianceSystemsOf d cd (clientAllianceData cachedData now later reply getNames)
          (removeAll sys systems)
        = allianceSystemsOf d cd (clientAllianceData cachedData now later reply getNames) systems"
    by (simp add: allianceModeColor_def allianceSystemsOf_def allianceSystems_skip)
  show ?thesis using a b c g by blast
qed

theorem C10_alliance_overlay_witness:
  "\<not> cacheFresh None 0
 \<and> clientAllianceData None 0 0 (Inr sov1) names1 1
     = Some \<lparr>ai_alliance_id = 99, ai_alliance_name = ''Test''\<rparr>
 \<and> clientAllianceData None 0 0 (Inr sov1) names1 2 = None
 \<and> allianceModeColor (Some (clientAllianceData None 0 0 (Inr sov1) names1)) sysB = HSL 0 0 30
 \<and> allianceSystemsOf surface (coordinateData surface (map_bounds [sysA, sysB, sysC]))
      (clientAllianceData None 0 0 (Inr sov1) names1) (removeAll sysB [sysA, sysB, sysC])
    = allianceSystemsOf surface (coordinateData surface (map_bounds [sysA, sysB, sysC]))
      (clientAllianceData None 0 0 (Inr sov1) names1) [sysA, sysB, sysC]
 \<and> clientAllianceData None 0 0 (Inl RequestFailed) names1 = Map.empty"
proof -
  have f: "\<not> cacheFresh None 0" by (simp add: cacheFresh_def)
  have ids: "sovAllianceIds (sovAllianceSystems sov1) = [99]"
    by (simp add: sovAllianceIds_def sovAllianceSystems_def sov1_def)
  have nm: "names1 (sovAllianceIds (sovAllianceSystems sov1))
              = Inr [\<lparr>ne_category = ''alliance'', ne_id = 99, ne_name = ''Test''\<rparr>]"
    by (simp add: ids names1_def)
  have v: "clientAllianceData None 0 0 (Inr sov1) names1 1
             = Some \<lparr>ai_alliance_id = 99, ai_alliance_name = ''Test''\<rparr>"
    unfolding clientAllianceData_success[where getNames = names1 and sovMap = sov1, OF f nm]
    by (simp add: overlayOf_def sovAllianceSystems_def sov1_def allianceNameMap_def
        allianceName_def)
  have h: "\<forall>e \<in> set sov1. system_id e = 2 \<longrightarrow> truthy (faction_id e)"
    by (simp add: sov1_def)
  have k: "sys_key sysB = 2" by (simp add: sysB_def)
  note t = C10_alliance_overlay[of None 0 names1 sov1
      "[\<lparr>ne_category = ''alliance'', ne_id = 99, ne_name = ''Test''\<rparr>]" 2 0 RequestFailed
      "Inr sov1" sysB surface
      "coordinateData surface (map_bounds [sysA, sysB, sysC])" "[sysA, sysB, sysC]"]
  from t f nm h have n: "clientAllianceData None 0 0 (Inr sov1) names1 2 = None" by blast
  from t n k have c: "allianceModeColor (Some (clientAllianceData None 0 0 (Inr sov1) names1)) sysB = HSL 0 0 30
    \<and> allianceSystemsOf surface (coordinateData surface (map_bounds [sysA, sysB, sysC]))
        (clientAllianceData None 0 0 (Inr sov1) names1) (removeAll sysB [sysA, sysB, sysC])
      = allianceSystemsOf surface (coordinateData surface (map_bounds [sysA, sysB, sysC]))
        (clientAllianceData None 0 0 (Inr sov1) names1) [sysA, sysB, sysC]"
    by simp
  from t f have e: "clientAllianceData None 0 0 (Inl RequestFailed) names1 = Map.empty" by blast
  show ?thesis using f v n c e by blast
qed

subsection \<open>Image cache\<close>










subsection \<open>Alliance proximity clustering\<close>

lemma distance2_swap: "distance2 (a - b) (c - d) = distance2 (b - a) (d - c)"
proof -
  have "(a - b) * (a - b) = (b - a) * (b - a)" "(c - d) * (c - d) = (d - c) * (d - c)"
    by (simp_all add: algebra_simps)
  then show ?thesis by (simp add: distance2_def)
qed

lemma nearby_sym: "nearby p q = nearby q p"
  by (simp add: nearby_def Let_def distance2_swap[of "fst p" "fst q" "snd p" "snd q"])

lemma edges_sym: "sym (edges systems)"
  using nearby_sym by (auto simp: sym_def edges_def)

lemma edges_rtrancl_sym: "(a, b) \<in> (edges systems)\<^sup>* \<Longrightarrow> (b, a) \<in> (edges systems)\<^sup>*"
  using sym_rtrancl[OF edges_sym, of systems] by (auto simp: sym_def)

lemma component_eq:
  assumes "(a, b) \<in> (edges systems)\<^sup>*"
  shows "component systems b = component systems a"
proof -
  have ba: "(b, a) \<in> (edges systems)\<^sup>*" using assms by (rule edges_rtrancl_sym)
  show ?thesis
    unfolding component_def using assms ba by (auto intro: rtrancl_trans)
qed

lemma closed_reach:
  assumes "(a, b) \<in> (edges systems)\<^sup>*" "a \<in> S"
    and "\<And>c d. c \<in> S \<Longrightarrow> (c, d) \<in> edges systems \<Longrightarrow> d \<in> S"
  shows "b \<in> S"
  using assms(1,2)
proof (induction rule: rtrancl_induct)
  case base
  then show ?case by simp
next
  case (step y z)
  then show ?case using assms(3) by blast
qed

lemma absorb_correct:
  "absorb_pre systems i V0 cluster visited j
     \<Longrightarrow> absorb_post systems i V0 (absorb systems i cluster visited j)"
proof (induction systems i cluster visited j rule: absorb.induct)
  case (1 systems i cluster visited j)
  note pre = "1.prems"
  show ?case
  proof (cases "j < length systems")
    case False
    then have r: "absorb systems i cluster visited j = (cluster, visited)"
      by (simp add: absorb.simps)
    have "\<forall>k < length systems. k \<notin> visited
           \<longrightarrow> (\<forall>c \<in> set cluster. \<not> nearby (systems ! c) (systems ! k))"
    proof (intro allI impI ballI)
      fix k c assume k: "k < length systems" "k \<notin> visited" and c: "c \<in> set cluster"
      have "i < k"
      proof (rule ccontr)
        assume "\<not> i < k"
        then have "k < i \<or> k = i" by auto
        then show False using pre k by (auto simp: absorb_pre_def)
      qed
      moreover have "k < j" using False k by simp
      ultimately have "\<not> list_ex (\<lambda>c. nearby (systems ! c) (systems ! k)) cluster"
        using pre k by (auto simp: absorb_pre_def)
      then show "\<not> nearby (systems ! c) (systems ! k)" using c by (auto simp: list_ex_iff)
    qed
    then show ?thesis using pre unfolding r absorb_post_def absorb_pre_def by simp
  next
    case jn: True
    show ?thesis
    proof (cases "j \<in> visited")
      case True
      then have r: "absorb systems i cluster visited j = absorb systems i cluster visited (j + 1)"
        using jn by (simp add: absorb.simps)
      have "absorb_pre systems i V0 cluster visited (j + 1)"
        using pre True unfolding absorb_pre_def
        by (auto simp: less_Suc_eq)
      then show ?thesis using "1.IH"(1)[OF jn True] r by simp
    next
      case nv: False
      show ?thesis
      proof (cases "list_ex (\<lambda>k. nearby (systems ! k) (systems ! j)) cluster")
        case True
        then have r: "absorb systems i cluster visited j
            = absorb systems i (cluster @ [j]) (insert j visited) (i + 1)"
          using jn nv by (simp add: absorb.simps)
        from True obtain c where c: "c \<in> set cluster" "nearby (systems ! c) (systems ! j)"
          by (auto simp: list_ex_iff)
        have cn: "c < length systems" using pre c by (auto simp: absorb_pre_def)
        have "(c, j) \<in> edges systems" using c cn jn by (simp add: edges_def)
        moreover have "(i, c) \<in> (edges systems)\<^sup>*" using pre c by (auto simp: absorb_pre_def)
        ultimately have ij: "(i, j) \<in> (edges systems)\<^sup>*" by (rule rtrancl_into_rtrancl[rotated])
        have jc: "j \<notin> set cluster" "j \<notin> V0" using pre nv by (auto simp: absorb_pre_def)
        have "absorb_pre systems i V0 (cluster @ [j]) (insert j visited) (i + 1)"
          using pre jn jc ij unfolding absorb_pre_def by auto
        then show ?thesis using "1.IH"(2)[OF jn nv True] r by simp
      next
        case False
        then have r: "absorb systems i cluster visited j = absorb systems i cluster visited (j + 1)"
          using jn nv by (simp add: absorb.simps)
        have "absorb_pre systems i V0 cluster visited (j + 1)"
          using pre False unfolding absorb_pre_def
          by (auto simp: less_Suc_eq)
        then show ?thesis using "1.IH"(3)[OF jn nv False] r by simp
      qed
    qed
  qed
qed


lemma new_cluster_component:
  assumes post: "absorb_post systems i V0 (C, V')"
    and V0: "V0 = set (concat clusters)" and ok: "clusters_ok systems clusters"
  shows "\<forall>a \<in> set C. set C = component systems a"
proof -
  have closed: "d \<in> set C" if c: "c \<in> set C" and e: "(c, d) \<in> edges systems" for c d
  proof (rule ccontr)
    assume dn: "d \<notin> set C"
    have d: "d < length systems" and nb: "nearby (systems ! c) (systems ! d)"
      using e by (auto simp: edges_def)
    have "d \<in> V'"
    proof (rule ccontr)
      assume "d \<notin> V'"
      then have "\<not> nearby (systems ! c) (systems ! d)"
        using post d c by (auto simp: absorb_post_def)
      then show False using nb by simp
    qed
    then have "d \<in> V0" using post dn by (auto simp: absorb_post_def)
    then obtain c0 where c0: "c0 \<in> set clusters" "d \<in> set c0" using V0 by auto
    then have "set c0 = component systems d" using ok by (auto simp: clusters_ok_def)
    moreover have "(d, c) \<in> edges systems" using e edges_sym by (auto simp: sym_def)
    ultimately have "c \<in> set c0" by (auto simp: component_def)
    then have "c \<in> V0" using c0 V0 by auto
    then show False using post c by (auto simp: absorb_post_def)
  qed
  have i: "i \<in> set C" using post by (simp add: absorb_post_def)
  have "set C = component systems i"
  proof
    show "set C \<subseteq> component systems i"
      using post by (auto simp: absorb_post_def component_def)
    show "component systems i \<subseteq> set C"
    proof
      fix b assume "b \<in> component systems i"
      then have "(i, b) \<in> (edges systems)\<^sup>*" by (simp add: component_def)
      then show "b \<in> set C" using i closed by (rule closed_reach)
    qed
  qed
  moreover have "component systems a = component systems i" if "a \<in> set C" for a
    using post that by (intro component_eq) (auto simp: absorb_post_def)
  ultimately show ?thesis by simp
qed

lemma clusterLoop_correct:
  "outer_inv systems i visited clusters \<Longrightarrow> i \<le> length systems
     \<Longrightarrow> outer_inv systems (length systems) {..<length systems} (clusterLoop systems i visited clusters)"
proof (induction systems i visited clusters rule: clusterLoop.induct)
  case (1 systems i visited clusters)
  note inv = "1.prems"(1)
  show ?case
  proof (cases "i < length systems")
    case False
    then have r: "clusterLoop systems i visited clusters = clusters"
      by (simp add: clusterLoop.simps)
    have "i = length systems" using False "1.prems"(2) by simp
    then have "visited = {..<length systems}" using inv by (auto simp: outer_inv_def)
    then show ?thesis using inv unfolding r outer_inv_def by simp
  next
    case il: True
    show ?thesis
    proof (cases "i \<in> visited")
      case True
      then have r: "clusterLoop systems i visited clusters
                      = clusterLoop systems (i + 1) visited clusters"
        using il by (simp add: clusterLoop.simps)
      have v: "{..<i} \<subseteq> visited" using inv unfolding outer_inv_def by blast
      have "{..<i + 1} \<subseteq> visited"
      proof
        fix k assume "k \<in> {..<i + 1}"
        then have "k < i \<or> k = i" by auto
        then show "k \<in> visited" using v True by auto
      qed
      then have "outer_inv systems (i + 1) visited clusters"
        using inv unfolding outer_inv_def by blast
      then show ?thesis using "1.IH"(1)[OF il True] il r by simp
    next
      case nv: False
      obtain C V' where a: "absorb systems i [i] (insert i visited) (i + 1) = (C, V')"
        by (cases "absorb systems i [i] (insert i visited) (i + 1)")
      then have r: "clusterLoop systems i visited clusters
                      = clusterLoop systems (i + 1) V' (clusters @ [C])"
        using il nv by (simp add: clusterLoop.simps)
      have "absorb_pre systems i visited [i] (insert i visited) (i + 1)"
        using inv il nv unfolding absorb_pre_def outer_inv_def by auto
      then have post: "absorb_post systems i visited (C, V')"
        using absorb_correct[of systems i visited "[i]" "insert i visited" "i + 1"] a by simp
      have comp: "\<forall>a \<in> set C. set C = component systems a"
        using new_cluster_component[OF post] inv by (auto simp: outer_inv_def)
      have ne: "C \<noteq> []" using post by (auto simp: absorb_post_def)
      have vc: "visited = set (concat clusters)" and dc: "distinct (concat clusters)"
        and vn: "visited \<subseteq> {..<length systems}" and vi: "{..<i} \<subseteq> visited"
        and ok: "clusters_ok systems clusters"
        using inv unfolding outer_inv_def by blast+
      have pC: "set C \<subseteq> {..<length systems}" "i \<in> set C" "distinct C"
        "V' = visited \<union> set C" "visited \<inter> set C = {}"
        using post unfolding absorb_post_def fst_conv snd_conv by blast+
      have n1: "V' = set (concat (clusters @ [C]))" using pC(4) vc by auto
      have n2: "distinct (concat (clusters @ [C]))" using dc pC(3,5) vc by auto
      have n3: "V' \<subseteq> {..<length systems}" using pC(1,4) vn by auto
      have n4: "{..<i + 1} \<subseteq> V'"
      proof
        fix k assume "k \<in> {..<i + 1}"
        then have "k < i \<or> k = i" by auto
        then show "k \<in> V'" using vi pC(2,4) by auto
      qed
      have n5: "clusters_ok systems (clusters @ [C])"
        using ok comp ne by (auto simp: clusters_ok_def)
      have "outer_inv systems (i + 1) V' (clusters @ [C])"
        unfolding outer_inv_def using n1 n2 n3 n4 n5 by blast
      then show ?thesis using "1.IH"(2)[OF il nv a[symmetric] refl] il r by simp
    qed
  qed
qed

text \<open>
  C6: for every list of member positions of an alliance the clustering returns a partition
  of the members (every member in exactly one cluster, no cluster empty) whose clusters
  are exactly the connected components of the graph that joins two members at distance
  below 150; so the set of clusters is determined by the positions and the threshold
  alone, and every run on the same input gives the same partition.
\<close>

theorem C6_connected_components:
  "distinct (concat (proximityClusters systems))
 \<and> set (concat (proximityClusters systems)) = {..<length systems}
 \<and> (\<forall>c \<in> set (proximityClusters systems).
       c \<noteq> [] \<and> (\<forall>a \<in> set c. set c = component systems a))
 \<and> set ` set (proximityClusters systems) = component systems ` {..<length systems}"
proof -
  let ?R = "proximityClusters systems"
  have "outer_inv systems 0 {} []"
    by (simp add: outer_inv_def clusters_ok_def)
  then have inv: "outer_inv systems (length systems) {..<length systems} ?R"
    unfolding proximityClusters_def by (intro clusterLoop_correct) simp_all
  then have d: "distinct (concat ?R)" and s: "set (concat ?R) = {..<length systems}"
    and ok: "\<forall>c \<in> set ?R. c \<noteq> [] \<and> (\<forall>a \<in> set c. set c = component systems a)"
    by (auto simp: outer_inv_def clusters_ok_def)
  have "set ` set ?R = component systems ` {..<length systems}"
  proof (intro set_eqI iffI)
    fix S assume "S \<in> set ` set ?R"
    then obtain c where c: "c \<in> set ?R" "S = set c" by auto
    have "c \<noteq> []" using ok c by blast
    then obtain a where a: "a \<in> set c" by (cases c) auto
    then have "a < length systems" using c s by auto
    moreover have "S = component systems a" using ok c a by auto
    ultimately show "S \<in> component systems ` {..<length systems}" by auto
  next
    fix S assume "S \<in> component systems ` {..<length systems}"
    then obtain a where a: "a < length systems" "S = component systems a" by auto
    then have "a \<in> set (concat ?R)" using s by simp
    then obtain c where c: "c \<in> set ?R" "a \<in> set c" by auto
    then have "set c = component systems a" using ok by auto
    then show "S \<in> set ` set ?R" using a c by auto
  qed
  then show ?thesis using d s ok by blast
qed

theorem C6_connected_components_witness:
  "proximityClusters members4 = [[0, 1, 3], [2]]
 \<and> component members4 0 = {0, 1, 3}
 \<and> component members4 2 = {2}"
proof -
  have e: "proximityClusters members4 = [[0, 1, 3], [2]]"
    by (simp add: proximityClusters_def members4_def clusterLoop.simps absorb.simps nearby_def
        proximityThreshold_def distance2_axis Let_def)
  note t = C6_connected_components[of members4]
  from t have "\<forall>c \<in> set (proximityClusters members4).
       c \<noteq> [] \<and> (\<forall>a \<in> set c. set c = component members4 a)" by blast
  then have "set [0, 1, 3] = component members4 0" "set [2] = component members4 2"
    unfolding e by auto
  then show ?thesis using e by auto
qed

subsection \<open>Collision-avoidance relaxation\<close>

lemma foldl_preserve:
  assumes "\<And>s x. P s \<Longrightarrow> P (f s x)" "P s"
  shows "P (foldl f s xs)"
  using assms(2) by (induction xs arbitrary: s) (simp_all add: assms(1))

lemma foldl_covers:
  assumes mono: "\<And>s x. rs_hadCollision s \<Longrightarrow> rs_hadCollision (f s x)"
    and grows: "\<And>s x. rs_checkedPairs s \<subseteq> rs_checkedPairs (f s x)"
    and keep: "\<And>s x. P s \<Longrightarrow> P (f s x)"
    and step: "\<And>s x. P s \<Longrightarrow> \<not> rs_hadCollision (f s x) \<Longrightarrow> Q x \<subseteq> rs_checkedPairs (f s x)"
  shows "P s \<Longrightarrow> \<not> rs_hadCollision (foldl f s xs)
           \<Longrightarrow> (\<Union>x \<in> set xs. Q x) \<subseteq> rs_checkedPairs (foldl f s xs)"
proof (induction xs arbitrary: s)
  case Nil
  then show ?case by simp
next
  case (Cons x xs)
  have nh: "\<not> rs_hadCollision (f s x)"
  proof
    assume "rs_hadCollision (f s x)"
    then have "rs_hadCollision (foldl f (f s x) xs)"
      by (rule foldl_preserve[where P = rs_hadCollision, rotated]) (rule mono)
    then show False using Cons.prems(2) by simp
  qed
  have "Q x \<subseteq> rs_checkedPairs (f s x)" using step[OF Cons.prems(1) nh] .
  moreover have "rs_checkedPairs (f s x) \<subseteq> rs_checkedPairs (foldl f (f s x) xs)"
    by (rule foldl_preserve[where P = "\<lambda>t. rs_checkedPairs (f s x) \<subseteq> rs_checkedPairs t", rotated])
       (use grows in auto)
  moreover have "(\<Union>y \<in> set xs. Q y) \<subseteq> rs_checkedPairs (foldl f (f s x) xs)"
    using Cons.IH[OF keep[OF Cons.prems(1)]] Cons.prems(2) by simp
  ultimately show ?case by auto
qed

lemma markerDistance_sym: "markerDistance objs i j = markerDistance objs j i"
  unfolding markerDistance_def distance2_def
  by (simp add: algebra_simps)


lemma collides_sym: "collides objs i j = collides objs j i"
  by (simp add: collides_def markerDistance_sym[of objs i j])

lemma collides_checkKey:
  "collides objs (fst (checkKey i j)) (snd (checkKey i j)) = collides objs i j"
  by (simp add: checkKey_def collides_sym[of objs j i])

lemma pp_mono: "rs_hadCollision st \<Longrightarrow> rs_hadCollision (processPair i st j)"
  by (simp add: processPair_def Let_def)

lemma pp_grows: "rs_checkedPairs st \<subseteq> rs_checkedPairs (processPair i st j)"
  by (auto simp: processPair_def Let_def)

lemma pp_length: "length (rs_objects (processPair i st j)) = length (rs_objects st)"
  by (simp add: processPair_def Let_def)

lemma pp_inv:
  assumes "pair_inv objs0 st"
  shows "pair_inv objs0 (processPair i st j)"
proof (cases "i = j \<or> checkKey i j \<in> rs_checkedPairs st")
  case True
  then have "processPair i st j = st" by (auto simp: processPair_def Let_def)
  then show ?thesis using assms by simp
next
  case False
  show ?thesis
  proof (cases "collides (rs_objects st) i j")
    case True
    then have "rs_hadCollision (processPair i st j)"
      using False by (simp add: processPair_def Let_def collides_def markerDistance_def)
    then show ?thesis by (simp add: pair_inv_def)
  next
    case nc: False
    then have e: "processPair i st j
        = st\<lparr>rs_checkedPairs := insert (checkKey i j) (rs_checkedPairs st)\<rparr>"
      using False by (auto simp: processPair_def Let_def collides_def markerDistance_def)
    show ?thesis
      unfolding e pair_inv_def using assms nc
      by (auto simp: pair_inv_def collides_checkKey)
  qed
qed

lemma pp_covers:
  assumes "\<not> rs_hadCollision (processPair i st j)"
  shows "(if j = i then {} else {checkKey i j}) \<subseteq> rs_checkedPairs (processPair i st j)"
  using assms by (auto simp: processPair_def Let_def split: if_splits)

lemma pc_mono: "rs_hadCollision st \<Longrightarrow> rs_hadCollision (processCell grid i cx cy st off)"
  unfolding processCell_def
  by (cases "grid (cx + fst off, cy + snd off)")
     (simp_all add: foldl_preserve[where P = rs_hadCollision] pp_mono)

lemma pc_grows: "rs_checkedPairs st \<subseteq> rs_checkedPairs (processCell grid i cx cy st off)"
proof (cases "grid (cx + fst off, cy + snd off)")
  case None
  then show ?thesis by (simp add: processCell_def)
next
  case (Some l)
  have "rs_checkedPairs st \<subseteq> rs_checkedPairs (foldl (processPair i) st l)"
    by (rule foldl_preserve[where P = "\<lambda>t. rs_checkedPairs st \<subseteq> rs_checkedPairs t"])
       (use pp_grows in blast)+
  then show ?thesis using Some by (simp add: processCell_def)
qed

lemma pc_length: "length (rs_objects (processCell grid i cx cy st off)) = length (rs_objects st)"
proof (cases "grid (cx + fst off, cy + snd off)")
  case None
  then show ?thesis by (simp add: processCell_def)
next
  case (Some l)
  have "length (rs_objects (foldl (processPair i) st l)) = length (rs_objects st)"
    by (rule foldl_preserve[where P = "\<lambda>t. length (rs_objects t) = length (rs_objects st)"])
       (simp_all add: pp_length)
  then show ?thesis using Some by (simp add: processCell_def)
qed

lemma pc_inv: "pair_inv objs0 st \<Longrightarrow> pair_inv objs0 (processCell grid i cx cy st off)"
  unfolding processCell_def
  by (cases "grid (cx + fst off, cy + snd off)")
     (simp_all add: foldl_preserve[where P = "pair_inv objs0"] pp_inv)

lemma pc_covers:
  assumes "\<not> rs_hadCollision (processCell grid i cx cy st off)"
  shows "cellPairs grid i cx cy off \<subseteq> rs_checkedPairs (processCell grid i cx cy st off)"
proof (cases "grid (cx + fst off, cy + snd off)")
  case None
  then show ?thesis by (simp add: cellPairs_def)
next
  case (Some l)
  have nh: "\<not> rs_hadCollision (foldl (processPair i) st l)"
    using assms Some by (simp add: processCell_def)
  have "(\<Union>j \<in> set l. (if j = i then {} else {checkKey i j}))
          \<subseteq> rs_checkedPairs (foldl (processPair i) st l)"
    by (rule foldl_covers[where P = "\<lambda>s. True" and f = "processPair i", OF pp_mono pp_grows _ pp_covers _ nh])
       simp_all
  moreover have "cellPairs grid i cx cy off = (\<Union>j \<in> set l. (if j = i then {} else {checkKey i j}))"
    using Some by (auto simp: cellPairs_def)
  ultimately show ?thesis using Some by (simp add: processCell_def)
qed


lemma po_mono: "rs_hadCollision st \<Longrightarrow> rs_hadCollision (processObject grid st i)"
  unfolding processObject_def Let_def
  by (rule foldl_preserve[where P = rs_hadCollision]) (simp_all add: pc_mono)

lemma po_grows: "rs_checkedPairs st \<subseteq> rs_checkedPairs (processObject grid st i)"
  unfolding processObject_def Let_def
  by (rule foldl_preserve[where P = "\<lambda>t. rs_checkedPairs st \<subseteq> rs_checkedPairs t"])
     (use pc_grows in blast)+

lemma po_length: "length (rs_objects (processObject grid st i)) = length (rs_objects st)"
  unfolding processObject_def Let_def
  by (rule foldl_preserve[where P = "\<lambda>t. length (rs_objects t) = length (rs_objects st)"])
     (simp_all add: pc_length)

lemma po_inv: "pair_inv objs0 st \<Longrightarrow> pair_inv objs0 (processObject grid st i)"
  unfolding processObject_def Let_def
  by (rule foldl_preserve[where P = "pair_inv objs0"]) (simp_all add: pc_inv)

lemma po_covers:
  assumes inv: "pair_inv objs0 st" and nh: "\<not> rs_hadCollision (processObject grid st i)"
  shows "objectPairs grid objs0 i \<subseteq> rs_checkedPairs (processObject grid st i)"
proof -
  have "\<not> rs_hadCollision st" using nh po_mono by blast
  then have o: "rs_objects st = objs0" using inv by (simp add: pair_inv_def)
  let ?cx = "cellCoord (fst (objs0 ! i))" and ?cy = "cellCoord (snd (objs0 ! i))"
  have e: "processObject grid st i = foldl (processCell grid i ?cx ?cy) st neighbourOffsets"
    by (simp add: processObject_def o Let_def)
  have "(\<Union>off \<in> set neighbourOffsets. cellPairs grid i ?cx ?cy off)
          \<subseteq> rs_checkedPairs (foldl (processCell grid i ?cx ?cy) st neighbourOffsets)"
    by (rule foldl_covers[where P = "\<lambda>s. True" and f = "processCell grid i ?cx ?cy",
          OF pc_mono pc_grows _ pc_covers])
       (use nh e in simp_all)
  then show ?thesis by (simp add: objectPairs_def e)
qed

lemma objects_covers:
  assumes nh: "\<not> rs_hadCollision (foldl (processObject grid) st is)" and inv: "pair_inv objs0 st"
  shows "(\<Union>i \<in> set is. objectPairs grid objs0 i)
           \<subseteq> rs_checkedPairs (foldl (processObject grid) st is)"
  by (rule foldl_covers[where P = "pair_inv objs0" and f = "processObject grid",
        OF po_mono po_grows po_inv po_covers inv nh])

lemma grid_member_aux:
  fixes objs :: "(real \<times> real) list"
  defines "stepf \<equiv> (\<lambda>grid index.
              (let obj = objs ! index;
                   key = getCellKey (fst obj) (snd obj)
               in grid(key \<mapsto> (case grid key of None \<Rightarrow> [] | Some l \<Rightarrow> l) @ [index])))"
  shows "j < m \<Longrightarrow>
     \<exists>l. foldl stepf Map.empty [0..<m] (getCellKey (fst (objs ! j)) (snd (objs ! j))) = Some l
          \<and> j \<in> set l"
proof (induction m)
  case 0
  then show ?case by simp
next
  case (Suc m)
  let ?G = "foldl stepf Map.empty [0..<m]"
  let ?kj = "getCellKey (fst (objs ! j)) (snd (objs ! j))"
  let ?km = "getCellKey (fst (objs ! m)) (snd (objs ! m))"
  have e: "foldl stepf Map.empty [0..<Suc m]
             = ?G(?km \<mapsto> (case ?G ?km of None \<Rightarrow> [] | Some l \<Rightarrow> l) @ [m])"
    by (simp add: stepf_def Let_def)
  show ?case
  proof (cases "j = m")
    case True
    then show ?thesis unfolding e by simp
  next
    case False
    then have "j < m" using Suc.prems by simp
    then obtain l where l: "?G ?kj = Some l" "j \<in> set l"
      using Suc.IH by blast
    show ?thesis
    proof (cases "?kj = ?km")
      case True
      then show ?thesis unfolding e using l by simp
    next
      case False
      then show ?thesis unfolding e using l by simp
    qed
  qed
qed

lemma grid_member:
  "j < length objs \<Longrightarrow>
     \<exists>l. buildGrid objs (getCellKey (fst (objs ! j)) (snd (objs ! j))) = Some l \<and> j \<in> set l"
  unfolding buildGrid_def by (rule grid_member_aux)

lemma abs_le_distance2_fst: "\<bar>dx\<bar> \<le> distance2 dx dy"
proof -
  have "\<bar>dx\<bar> = sqrt (dx * dx)" by simp
  moreover have "dx * dx \<le> dx * dx + dy * dy" by simp
  ultimately show ?thesis
    unfolding distance2_def by (metis real_sqrt_le_mono)
qed

lemma abs_le_distance2_snd: "\<bar>dy\<bar> \<le> distance2 dx dy"
proof -
  have "\<bar>dy\<bar> = sqrt (dy * dy)" by simp
  moreover have "dy * dy \<le> dx * dx + dy * dy" by simp
  ultimately show ?thesis
    unfolding distance2_def by (metis real_sqrt_le_mono)
qed

lemma cellCoord_near:
  assumes "\<bar>b - a\<bar> < minSeparation"
  shows "cellCoord b - cellCoord a \<in> {-1, 0, 1}"
proof -
  have d: "\<bar>b / 30 - a / 30\<bar> < 1" using assms by (simp add: minSeparation_def)
  have "of_int \<lfloor>a / 30\<rfloor> \<le> a / 30" "a / 30 < of_int \<lfloor>a / 30\<rfloor> + 1"
       "of_int \<lfloor>b / 30\<rfloor> \<le> b / 30" "b / 30 < of_int \<lfloor>b / 30\<rfloor> + 1"
    by linarith+
  then have "real_of_int \<lfloor>b / 30\<rfloor> - real_of_int \<lfloor>a / 30\<rfloor> < 2"
            "real_of_int \<lfloor>a / 30\<rfloor> - real_of_int \<lfloor>b / 30\<rfloor> < 2"
    using d by linarith+
  then have "\<lfloor>b / 30\<rfloor> - \<lfloor>a / 30\<rfloor> < 2" "\<lfloor>a / 30\<rfloor> - \<lfloor>b / 30\<rfloor> < 2"
    by linarith+
  then show ?thesis
    unfolding cellCoord_def cellSize_def minSeparation_def by auto
qed

lemma offsets_all:
  "dx \<in> {-1, 0, 1} \<Longrightarrow> dy \<in> {-1, 0, 1} \<Longrightarrow> (dx, dy) \<in> set neighbourOffsets"
  by (auto simp: neighbourOffsets_def)

lemma collides_in_objectPairs:
  assumes "i < length objs" "j < length objs" "i \<noteq> j" "collides objs i j"
  shows "checkKey i j \<in> objectPairs (buildGrid objs) objs i"
proof -
  let ?xi = "fst (objs ! i)" and ?yi = "snd (objs ! i)"
  let ?xj = "fst (objs ! j)" and ?yj = "snd (objs ! j)"
  have ax: "\<bar>?xj - ?xi\<bar> < minSeparation" and ay: "\<bar>?yj - ?yi\<bar> < minSeparation"
    using assms(4) abs_le_distance2_fst[of "?xj - ?xi" "?yj - ?yi"]
      abs_le_distance2_snd[of "?yj - ?yi" "?xj - ?xi"]
    by (auto simp: collides_def markerDistance_def)
  have dx: "cellCoord ?xj - cellCoord ?xi \<in> {-1, 0, 1}"
    using ax by (rule cellCoord_near)
  have dy: "cellCoord ?yj - cellCoord ?yi \<in> {-1, 0, 1}"
    using ay by (rule cellCoord_near)
  let ?off = "(cellCoord ?xj - cellCoord ?xi, cellCoord ?yj - cellCoord ?yi)"
  have off: "?off \<in> set neighbourOffsets" using dx dy by (rule offsets_all)
  obtain l where l: "buildGrid objs (getCellKey ?xj ?yj) = Some l" "j \<in> set l"
    using grid_member[OF assms(2)] by blast
  have "getCellKey ?xj ?yj = (cellCoord ?xi + fst ?off, cellCoord ?yi + snd ?off)"
    by (simp add: getCellKey_def)
  then have "checkKey i j \<in> cellPairs (buildGrid objs) i (cellCoord ?xi) (cellCoord ?yi) ?off"
    using l assms(3) unfolding cellPairs_def by force
  then show ?thesis using off unfolding objectPairs_def by blast
qed


lemma relaxIteration_length: "length (fst (relaxIteration objs)) = length objs"
proof -
  let ?init = "\<lparr>rs_objects = objs, rs_checkedPairs = {}, rs_hadCollision = False\<rparr>"
  have "length (rs_objects (foldl (processObject (buildGrid objs)) ?init [0..<length objs]))
          = length (rs_objects ?init)"
    by (rule foldl_preserve[where P = "\<lambda>t. length (rs_objects t) = length (rs_objects ?init)"])
       (simp_all add: po_length)
  then show ?thesis by (simp add: relaxIteration_def Let_def)
qed

lemma relaxIteration_quiet:
  assumes "\<not> snd (relaxIteration objs)"
  shows "fst (relaxIteration objs) = objs
       \<and> (\<forall>i < length objs. \<forall>j < length objs. i \<noteq> j \<longrightarrow> \<not> collides objs i j)"
proof -
  let ?init = "\<lparr>rs_objects = objs, rs_checkedPairs = {}, rs_hadCollision = False\<rparr>"
  let ?st = "foldl (processObject (buildGrid objs)) ?init [0..<length objs]"
  have nh: "\<not> rs_hadCollision ?st" using assms by (simp add: relaxIteration_def Let_def)
  have i0: "pair_inv objs ?init" by (simp add: pair_inv_def)
  have inv: "pair_inv objs ?st"
  proof (rule foldl_preserve[where P = "pair_inv objs"])
    show "\<And>s x. pair_inv objs s \<Longrightarrow> pair_inv objs (processObject (buildGrid objs) s x)"
      by (rule po_inv)
    show "pair_inv objs ?init" by (rule i0)
  qed
  have o: "rs_objects ?st = objs" using inv nh by (simp add: pair_inv_def)
  have cov: "(\<Union>i \<in> set [0..<length objs]. objectPairs (buildGrid objs) objs i)
               \<subseteq> rs_checkedPairs ?st"
    using objects_covers[OF nh i0] .
  have "\<not> collides objs i j" if ij: "i < length objs" "j < length objs" "i \<noteq> j" for i j
  proof
    assume c: "collides objs i j"
    have "checkKey i j \<in> objectPairs (buildGrid objs) objs i"
      using ij c by (rule collides_in_objectPairs)
    moreover have "i \<in> set [0..<length objs]" using ij(1) by simp
    ultimately have "checkKey i j \<in> rs_checkedPairs ?st" using cov by blast
    then have "\<not> collides objs (fst (checkKey i j)) (snd (checkKey i j))"
      using inv nh by (auto simp: pair_inv_def)
    then show False using c by (simp add: collides_checkKey)
  qed
  then show ?thesis using o by (simp add: relaxIteration_def Let_def)
qed

lemma relaxLoop_correct:
  "relaxLoop iteration objs = (objs', k) \<Longrightarrow> iteration \<le> maxIterations \<Longrightarrow>
     length objs' = length objs \<and> iteration \<le> k \<and> k \<le> maxIterations
   \<and> (iteration < maxIterations \<longrightarrow> iteration < k)
   \<and> (k < maxIterations \<longrightarrow>
        (\<forall>i < length objs. \<forall>j < length objs. i \<noteq> j \<longrightarrow> \<not> collides objs' i j))"
proof (induction iteration objs arbitrary: objs' k rule: relaxLoop.induct)
  case (1 iteration objs)
  show ?case
  proof (cases "iteration < maxIterations")
    case False
    then show ?thesis using "1.prems" by (simp add: relaxLoop.simps)
  next
    case it: True
    obtain o1 had where r: "relaxIteration objs = (o1, had)" by (cases "relaxIteration objs")
    have len: "length o1 = length objs" using relaxIteration_length[of objs] r by simp
    show ?thesis
    proof (cases had)
      case False
      then have e: "objs' = o1" "k = iteration + 1"
        using "1.prems"(1) it r by (simp_all add: relaxLoop.simps)
      have q: "o1 = objs \<and> (\<forall>i < length objs. \<forall>j < length objs. i \<noteq> j \<longrightarrow> \<not> collides objs i j)"
        using relaxIteration_quiet[of objs] r False by simp
      show ?thesis using e q it by simp
    next
      case True
      then have e: "relaxLoop (iteration + 1) o1 = (objs', k)"
        using "1.prems"(1) it r by (simp add: relaxLoop.simps)
      have "length objs' = length o1 \<and> iteration + 1 \<le> k \<and> k \<le> maxIterations
         \<and> (iteration + 1 < maxIterations \<longrightarrow> iteration + 1 < k)
         \<and> (k < maxIterations \<longrightarrow>
              (\<forall>i < length o1. \<forall>j < length o1. i \<noteq> j \<longrightarrow> \<not> collides objs' i j))"
        using "1.IH"[OF it r[symmetric] refl _ e] it True by simp
      then show ?thesis using len it by auto
    qed
  qed
qed

lemma distance2_nonneg: "0 \<le> distance2 dx dy"
  by (simp add: distance2_def)

lemma not_collides_iff:
  "\<not> collides objs i j \<longleftrightarrow> markerDistance objs i j = 0 \<or> minSeparation \<le> markerDistance objs i j"
  using distance2_nonneg[of "fst (objs ! j) - fst (objs ! i)" "snd (objs ! j) - snd (objs ! i)"]
  by (auto simp: collides_def markerDistance_def)

lemma foldl_preserve_set:
  assumes "\<And>s x. x \<in> set xs \<Longrightarrow> P s \<Longrightarrow> P (f s x)" "P s"
  shows "P (foldl f s xs)"
  using assms
proof (induction xs arbitrary: s)
  case Nil
  then show ?case by simp
next
  case (Cons x xs)
  have "P (f s x)" using Cons.prems by simp
  then show ?case using Cons.IH[of "f s x"] Cons.prems(1) by simp
qed

lemma grid_range_aux:
  fixes objs :: "(real \<times> real) list"
  defines "stepf \<equiv> (\<lambda>grid index.
              (let obj = objs ! index;
                   key = getCellKey (fst obj) (snd obj)
               in grid(key \<mapsto> (case grid key of None \<Rightarrow> [] | Some l \<Rightarrow> l) @ [index])))"
  shows "foldl stepf Map.empty [0..<m] key = Some l \<Longrightarrow> j \<in> set l \<Longrightarrow> j < m"
proof (induction m arbitrary: l)
  case 0
  then show ?case by simp
next
  case (Suc m)
  let ?G = "foldl stepf Map.empty [0..<m]"
  let ?km = "getCellKey (fst (objs ! m)) (snd (objs ! m))"
  have e: "foldl stepf Map.empty [0..<Suc m]
             = ?G(?km \<mapsto> (case ?G ?km of None \<Rightarrow> [] | Some l \<Rightarrow> l) @ [m])"
    by (simp add: stepf_def Let_def)
  show ?case
  proof (cases "key = ?km")
    case False
    then have "?G key = Some l" using Suc.prems(1) unfolding e by simp
    then have "j < m" using Suc.IH Suc.prems(2) by blast
    then show ?thesis by simp
  next
    case True
    show ?thesis
    proof (cases "?G ?km")
      case None
      then have "l = [m]" using Suc.prems(1) True unfolding e by simp
      then show ?thesis using Suc.prems(2) by simp
    next
      case (Some l0)
      then have "l = l0 @ [m]" using Suc.prems(1) True unfolding e by simp
      then have "j \<in> set l0 \<or> j = m" using Suc.prems(2) by auto
      moreover have "j < m" if "j \<in> set l0" using Suc.IH[of l0] Some True that by simp
      ultimately show ?thesis by auto
    qed
  qed
qed

lemma grid_range: "buildGrid objs key = Some l \<Longrightarrow> j \<in> set l \<Longrightarrow> j < length objs"
  unfolding buildGrid_def by (rule grid_range_aux)

lemma pp_still:
  assumes "still objs st" "i = j \<or> \<not> collides objs i j"
  shows "still objs (processPair i st j)"
  using assms
  by (auto simp: still_def processPair_def Let_def collides_def markerDistance_def)

lemma no_collision_quiet:
  assumes nc: "\<forall>i < length objs. \<forall>j < length objs. i \<noteq> j \<longrightarrow> \<not> collides objs i j"
  shows "relaxIteration objs = (objs, False)"
proof -
  let ?G = "buildGrid objs"
  let ?init = "\<lparr>rs_objects = objs, rs_checkedPairs = {}, rs_hadCollision = False\<rparr>"
  have cell: "still objs (processCell ?G i cx cy st off)"
    if "still objs st" "i < length objs" for st i cx cy off
  proof (cases "?G (cx + fst off, cy + snd off)")
    case None
    then show ?thesis using that by (simp add: processCell_def)
  next
    case (Some l)
    have "still objs (foldl (processPair i) st l)"
    proof (rule foldl_preserve_set[where P = "still objs"])
      fix s j assume "j \<in> set l" "still objs s"
      moreover from this have "j < length objs" using grid_range[OF Some] by simp
      ultimately show "still objs (processPair i s j)"
        using nc that(2) by (intro pp_still) auto
    qed (rule that(1))
    then show ?thesis using Some by (simp add: processCell_def)
  qed
  have obj: "still objs (processObject ?G st i)" if "still objs st" "i < length objs" for st i
    unfolding processObject_def Let_def
    by (rule foldl_preserve[where P = "still objs"]) (use that cell in auto)
  have "still objs (foldl (processObject ?G) ?init [0..<length objs])"
    by (rule foldl_preserve_set[where P = "still objs"]) (use obj in \<open>auto simp: still_def\<close>)
  then show ?thesis by (simp add: relaxIteration_def Let_def still_def)
qed

lemma relax_no_collision:
  assumes "\<forall>i < length objs. \<forall>j < length objs. i \<noteq> j \<longrightarrow> \<not> collides objs i j"
  shows "relax objs = (objs, 1)"
  using no_collision_quiet[OF assms]
  by (simp add: relax_def relaxLoop.simps maxIterations_def)

lemma relax_coincident2: "relax coincident2 = (coincident2, 1)"
proof (rule relax_no_collision)
  show "\<forall>i < length coincident2. \<forall>j < length coincident2. i \<noteq> j \<longrightarrow> \<not> collides coincident2 i j"
    by (auto simp: coincident2_def collides_def markerDistance_def distance2_axis less_Suc_eq)
qed

lemma cellCoord_vals: "cellCoord 0 = 0" "cellCoord 9 = 0" "cellCoord 12 = 0" "cellCoord (-3) = -1"
  by (simp_all add: cellCoord_def cellSize_def minSeparation_def)

lemma grid_close2: "buildGrid close2 = [(0, 0) \<mapsto> [0, 1]]"
  by (simp add: buildGrid_def close2_def getCellKey_def cellCoord_vals upt_rec Let_def)

lemma pp_close2_01:
  "processPair 0 \<lparr>rs_objects = close2, rs_checkedPairs = {}, rs_hadCollision = False\<rparr> 1
     = \<lparr>rs_objects = pushed2, rs_checkedPairs = {(0, 1)}, rs_hadCollision = True\<rparr>"
  by (simp add: processPair_def close2_def pushed2_def checkKey_def Let_def distance2_axis
      minSeparation_def cosAtan2_def sinAtan2_def)

lemma pp_same: "processPair i st i = st"
  by (simp add: processPair_def)

lemma pp_seen: "checkKey i j \<in> rs_checkedPairs st \<Longrightarrow> processPair i st j = st"
  by (simp add: processPair_def Let_def)

lemma pc_empty:
  "grid (cx + fst off, cy + snd off) = None \<Longrightarrow> processCell grid i cx cy st off = st"
  by (simp add: processCell_def)

lemma pc_some:
  "grid (cx + fst off, cy + snd off) = Some l
     \<Longrightarrow> processCell grid i cx cy st off = foldl (processPair i) st l"
  by (simp add: processCell_def)

lemma po_close2_0:
  "processObject [(0, 0) \<mapsto> [0, 1]]
      \<lparr>rs_objects = close2, rs_checkedPairs = {}, rs_hadCollision = False\<rparr> 0
     = \<lparr>rs_objects = pushed2, rs_checkedPairs = {(0, 1)}, rs_hadCollision = True\<rparr>"
proof -
  have o: "close2 ! 0 = (0, 0)" by (simp add: close2_def)
  show ?thesis
    using pp_close2_01
    by (simp add: processObject_def o cellCoord_vals neighbourOffsets_def pc_empty pc_some pp_same
        Let_def)
qed

lemma po_close2_1:
  "processObject [(0, 0) \<mapsto> [0, 1]]
      \<lparr>rs_objects = pushed2, rs_checkedPairs = {(0, 1)}, rs_hadCollision = True\<rparr> 1
     = \<lparr>rs_objects = pushed2, rs_checkedPairs = {(0, 1)}, rs_hadCollision = True\<rparr>"
proof -
  have o: "pushed2 ! Suc 0 = (12, 0)" by (simp add: pushed2_def)
  have k: "checkKey (Suc 0) 0 = (0, Suc 0)" by (simp add: checkKey_def)
  show ?thesis
    by (simp add: processObject_def o cellCoord_vals neighbourOffsets_def pc_empty pc_some pp_same
        pp_seen k Let_def)
qed

lemma relaxIteration_close2: "relaxIteration close2 = (pushed2, True)"
proof -
  have l: "[0..<length close2] = [0, 1]" by (simp add: close2_def upt_rec)
  show ?thesis
    using po_close2_0 po_close2_1
    by (simp add: relaxIteration_def grid_close2 l)
qed

lemma relax_close2: "relax close2 = (pushed2, 2)"
proof -
  have "\<forall>i < length pushed2. \<forall>j < length pushed2. i \<noteq> j \<longrightarrow> \<not> collides pushed2 i j"
    by (auto simp: pushed2_def collides_def markerDistance_def distance2_axis less_Suc_eq
        minSeparation_def)
  then have "relaxIteration pushed2 = (pushed2, False)" by (rule no_collision_quiet)
  then show ?thesis
    using relaxIteration_close2
    by (simp add: relax_def relaxLoop.simps[of 0] relaxLoop.simps[of 1] relaxLoop.simps[of "Suc 0"] maxIterations_def)
qed


text \<open>
  C3 (as stated in the specification): after the pass, every pair of markers that was
  closer than \<open>minSeparation\<close> before it is at distance at least \<open>minSeparation\<close>, or all
  5 iterations were executed. This fails for coincident markers: the collision test is
  \<open>distance < minSeparation && distance > 0\<close>, so for two markers alone at the same
  position the first iteration finds no collision, the pass stops after it, and the two
  are still at distance 0.
\<close>

theorem C3_coincident_counterexample:
  "markerDistance coincident2 0 1 < minSeparation
 \<and> relax coincident2 = (coincident2, 1)
 \<and> \<not> minSeparation \<le> markerDistance (fst (relax coincident2)) 0 1
 \<and> snd (relax coincident2) \<noteq> maxIterations"
  by (simp add: relax_coincident2 maxIterations_def)
     (simp add: coincident2_def markerDistance_def distance2_axis minSeparation_def)

text \<open>
  C3 (amended): the pass keeps the number of markers and executes between 1 and 5
  iterations; if fewer than 5 iterations were executed then afterwards every pair of
  distinct markers is at distance at least \<open>minSeparation\<close> or exactly 0; the early stop
  fires only in an iteration that moved nothing and found no pair at a distance strictly
  between 0 and \<open>minSeparation\<close>.
\<close>

theorem C3_relaxation:
  assumes "relax objs = (objs', k)"
  shows "length objs' = length objs \<and> 1 \<le> k \<and> k \<le> maxIterations
       \<and> (k < maxIterations \<longrightarrow>
            (\<forall>i < length objs. \<forall>j < length objs. i \<noteq> j \<longrightarrow>
               markerDistance objs' i j = 0 \<or> minSeparation \<le> markerDistance objs' i j))
       \<and> (\<not> snd (relaxIteration objs) \<longrightarrow>
            fst (relaxIteration objs) = objs
          \<and> (\<forall>i < length objs. \<forall>j < length objs. i \<noteq> j \<longrightarrow>
               markerDistance objs i j = 0 \<or> minSeparation \<le> markerDistance objs i j))"
proof -
  have "length objs' = length objs \<and> 0 \<le> k \<and> k \<le> maxIterations
   \<and> (0 < maxIterations \<longrightarrow> 0 < k)
   \<and> (k < maxIterations \<longrightarrow>
        (\<forall>i < length objs. \<forall>j < length objs. i \<noteq> j \<longrightarrow> \<not> collides objs' i j))"
    using relaxLoop_correct[of 0 objs objs' k] assms by (simp add: relax_def)
  then have a: "length objs' = length objs \<and> 1 \<le> k \<and> k \<le> maxIterations
       \<and> (k < maxIterations \<longrightarrow>
            (\<forall>i < length objs. \<forall>j < length objs. i \<noteq> j \<longrightarrow>
               markerDistance objs' i j = 0 \<or> minSeparation \<le> markerDistance objs' i j))"
    by (simp add: not_collides_iff maxIterations_def)
  have b: "\<not> snd (relaxIteration objs) \<longrightarrow>
            fst (relaxIteration objs) = objs
          \<and> (\<forall>i < length objs. \<forall>j < length objs. i \<noteq> j \<longrightarrow>
               markerDistance objs i j = 0 \<or> minSeparation \<le> markerDistance objs i j)"
    using relaxIteration_quiet[of objs] by (simp add: not_collides_iff)
  show ?thesis using a b by blast
qed

theorem C3_relaxation_witness:
  "markerDistance close2 0 1 = 9
 \<and> relax close2 = (pushed2, 2)
 \<and> (2::nat) < maxIterations
 \<and> markerDistance pushed2 0 1 = 15
 \<and> minSeparation \<le> markerDistance pushed2 0 1"
proof -
  have r: "relax close2 = (pushed2, 2)" by (rule relax_close2)
  have m: "(2::nat) < maxIterations" by (simp add: maxIterations_def)
  have d0: "markerDistance close2 0 1 = 9"
    by (simp add: close2_def markerDistance_def distance2_axis)
  have d: "markerDistance pushed2 0 1 = 15"
    by (simp add: pushed2_def markerDistance_def distance2_axis)
  have "\<forall>i < length close2. \<forall>j < length close2. i \<noteq> j \<longrightarrow>
          markerDistance pushed2 i j = 0 \<or> minSeparation \<le> markerDistance pushed2 i j"
    using C3_relaxation[OF r] m by blast
  moreover have "(0::nat) < length close2" "(1::nat) < length close2" by (simp_all add: close2_def)
  ultimately have "markerDistance pushed2 0 1 = 0 \<or> minSeparation \<le> markerDistance pushed2 0 1"
    by (metis zero_neq_one)
  then have "minSeparation \<le> markerDistance pushed2 0 1" using d by simp
  then show ?thesis using r m d d0 by simp
qed

end
